theory Spec2Isabelle
  imports Complex_Main "HOL-Library.Word" "HOL-Library.Sublist"
begin

section \<open>The audio translation route: \<open>src/app/api/process-audio/route.ts\<close>\<close>

text \<open>
  The route handler \<open>POST\<close> is modelled as a function on an explicit world state. Every
  operation the handler awaits (file system, ffmpeg helpers of \<open>@/lib/audio\<close>, model
  pipelines, the WAV encoder) is outside the file: its outcome for one request is read
  from a record \<open>Env\<close>, and the call itself is appended to a trace, with its arguments.
  An awaited promise either fulfils or rejects; a promise that never settles (the handler
  would never return) is not part of the model. Two calls have no outcome of their own:
  \<open>arrayBuffer()\<close> of the uploaded file, which is in memory, and \<open>console.error\<close>.
\<close>

subsection \<open>Values\<close>

type_synonym Buffer = "8 word list"

type_synonym float32 = "32 word"
  \<comment> \<open>a sample of a \<open>Float32Array\<close>, as its 32 bits; the handler only passes samples on\<close>

type_synonym Float32Array = "float32 list"

datatype Error = Error (message: string)

datatype File = File (file_name: string) (file_bytes: Buffer)

datatype FormDataEntryValue = FileValue File | StringValue string

type_synonym FormData = "(string \<times> FormDataEntryValue) list"

definition form_get :: "FormData \<Rightarrow> string \<Rightarrow> FormDataEntryValue option" where
  \<comment> \<open>\<open>formData.get(name)\<close>: the first value of that name, or \<open>null\<close>\<close>
  "form_get fd name = map_of fd name"

record NextRequest =
  formData :: "Error + FormData"
    \<comment> \<open>what \<open>await request.formData()\<close> gives: the parsed form, or the error it throws\<close>

datatype ResponseBody = TextBody string | BinaryBody Buffer

record NextResponse =
  body :: ResponseBody
  status :: nat
  headers :: "(string \<times> string) list"

datatype AsrResult =
    AsrString string
  | AsrObject (asr_text: "string option") (asr_language: "string option")
  \<comment> \<open>\<open>{ text?: string; language?: string } | string\<close>\<close>

datatype TranslationItem = ItemString string | ItemObject "string option"

datatype TranslationResult =
    TrString string
  | TrObject "string option"
  | TrArray "TranslationItem list"
  \<comment> \<open>\<open>string | { translation_text?: string } | Array<{ translation_text?: string } | string>\<close>\<close>

datatype TtsAudio = OneChannel Float32Array | Channels "Float32Array list"

record TtsResult =
  audio :: TtsAudio
  sampling_rate :: int

subsection \<open>Language tables\<close>

definition TTS_MODEL :: "(string \<times> string) list" where
  "TTS_MODEL =
    [(''en'', ''Xenova/mms-tts-en''),
     (''es'', ''Xenova/mms-tts-es''),
     (''fr'', ''Xenova/mms-tts-fr''),
     (''de'', ''Xenova/mms-tts-de''),
     (''it'', ''Xenova/mms-tts-it''),
     (''pt'', ''Xenova/mms-tts-pt'')]"

definition TRANSLATION_LANG :: "(string \<times> string) list" where
  "TRANSLATION_LANG =
    [(''en'', ''en''),
     (''es'', ''es''),
     (''fr'', ''fr''),
     (''de'', ''de''),
     (''it'', ''it''),
     (''pt'', ''pt'')]"

definition isSupportedLanguage :: "string \<Rightarrow> bool" where
  \<comment> \<open>\<open>Object.prototype.hasOwnProperty.call(TTS_MODEL, input)\<close>\<close>
  "isSupportedLanguage input = (map_of TTS_MODEL input \<noteq> None)"

subsection \<open>The world: module variables, directories, and the calls made so far\<close>

datatype Settlement = Fulfilled | Rejected Error

datatype Promise = Promise (pid: nat) (settlement: Settlement)
  \<comment> \<open>a promise returned by \<open>pipeline(...)\<close>: its identity, and how it settles\<close>

datatype Event =
    Mkdtemp string
  | WriteFile string Buffer
  | ConvertToWav string string
  | CreateInstrumental string string
  | AsrCall string
  | TranslatorCall string "string option" "string option"
  | TtsCall string
  | WavEncode int "Float32Array list"
  | NormalizeVoice string string
  | MixTracks string string string
  | ReadFile string
  | Rm string
  | ConsoleError Error

record World =
  asrPipelinePromise :: "Promise option"
  translationPipelinePromise :: "Promise option"
  ttsPipelines :: "string \<rightharpoonup> Promise"
  constructions :: "(string \<times> string option) list"
    \<comment> \<open>every call of \<open>pipeline(task, model)\<close> so far, oldest first\<close>
  dirs :: "string set"
    \<comment> \<open>the scratch directories that exist\<close>
  trace :: "Event list"
    \<comment> \<open>every other outside call so far, oldest first\<close>

definition initial :: World where
  "initial = \<lparr> asrPipelinePromise = None, translationPipelinePromise = None,
               ttsPipelines = Map.empty, constructions = [], dirs = {}, trace = [] \<rparr>"

subsection \<open>The lazily built model pipelines\<close>

definition pipeline :: "string \<Rightarrow> string option \<Rightarrow> Settlement \<Rightarrow> World \<Rightarrow> Promise \<times> World" where
  \<comment> \<open>\<open>pipeline(task, model)\<close> starts a construction and returns its promise at once;
      the third argument says how this construction will settle\<close>
  "pipeline task model outcome w =
     (Promise (length (constructions w)) outcome,
      w\<lparr>constructions := constructions w @ [(task, model)]\<rparr>)"

definition getASR :: "Settlement \<Rightarrow> World \<Rightarrow> Promise \<times> World" where
  "getASR outcome w =
     (case asrPipelinePromise w of
        None \<Rightarrow>
          (case pipeline ''automatic-speech-recognition'' (Some ''Xenova/whisper-small'') outcome w of
             (p, w') \<Rightarrow> (p, w'\<lparr>asrPipelinePromise := Some p\<rparr>))
      | Some p \<Rightarrow> (p, w))"

definition getTranslator :: "Settlement \<Rightarrow> World \<Rightarrow> Promise \<times> World" where
  "getTranslator outcome w =
     (case translationPipelinePromise w of
        None \<Rightarrow>
          (case pipeline ''translation'' (Some ''Xenova/m2m100_418M'') outcome w of
             (p, w') \<Rightarrow> (p, w'\<lparr>translationPipelinePromise := Some p\<rparr>))
      | Some p \<Rightarrow> (p, w))"

definition getTTS :: "string \<Rightarrow> Settlement \<Rightarrow> World \<Rightarrow> Promise \<times> World" where
  \<comment> \<open>\<open>ttsPipelines.has\<close>, \<open>set\<close> and the final \<open>get(language)!\<close> are one lookup here:
      after \<open>set\<close> the entry read back is the promise just stored\<close>
  "getTTS language outcome w =
     (case ttsPipelines w language of
        None \<Rightarrow>
          (case pipeline ''text-to-speech'' (map_of TTS_MODEL language) outcome w of
             (p, w') \<Rightarrow> (p, w'\<lparr>ttsPipelines := (ttsPipelines w')(language \<mapsto> p)\<rparr>))
      | Some p \<Rightarrow> (p, w))"

subsection \<open>Awaited computations\<close>

text \<open>
  An awaited computation runs on the world and either throws or gives a value. \<open>andThen\<close>
  is the sequencing of two awaited statements: when the first throws, the second is not run.
\<close>

type_synonym 'a Task = "World \<Rightarrow> (Error + 'a) \<times> World"

definition resolve :: "'a \<Rightarrow> 'a Task" where
  "resolve x w = (Inr x, w)"

definition throw :: "Error \<Rightarrow> 'a Task" where
  "throw e w = (Inl e, w)"

definition andThen :: "'a Task \<Rightarrow> ('a \<Rightarrow> 'b Task) \<Rightarrow> 'b Task" where
  "andThen m f w = (case m w of (Inl e, w') \<Rightarrow> (Inl e, w') | (Inr x, w') \<Rightarrow> f x w')"

definition tryFinally :: "'a Task \<Rightarrow> unit Task \<Rightarrow> 'a Task" where
  \<comment> \<open>\<open>try { m } finally { cleanup }\<close>: the cleanup always runs; when it throws, its error
      replaces whatever the block returned or threw\<close>
  "tryFinally m cleanup w =
     (case m w of (r, w') \<Rightarrow>
        (case cleanup w' of (Inl e, w'') \<Rightarrow> (Inl e, w'') | (Inr _, w'') \<Rightarrow> (r, w'')))"

definition outside :: "Event \<Rightarrow> Error + 'a \<Rightarrow> 'a Task" where
  \<comment> \<open>a call that leaves the file: it is recorded, and its outcome is the environment's\<close>
  "outside ev outcome w = (outcome, w\<lparr>trace := trace w @ [ev]\<rparr>)"

definition lift :: "(World \<Rightarrow> 'a \<times> World) \<Rightarrow> 'a Task" where
  "lift f w = (case f w of (x, w') \<Rightarrow> (Inr x, w'))"

definition await_promise :: "Promise \<Rightarrow> unit Task" where
  "await_promise p = (case settlement p of Fulfilled \<Rightarrow> resolve () | Rejected e \<Rightarrow> throw e)"

definition mkdtemp :: "string \<Rightarrow> Error + string \<Rightarrow> string Task" where
  "mkdtemp pfx outcome w =
     (outcome,
      w\<lparr>dirs := (case outcome of Inl _ \<Rightarrow> dirs w | Inr p \<Rightarrow> insert p (dirs w)),
        trace := trace w @ [Mkdtemp pfx]\<rparr>)"

definition rm :: "string \<Rightarrow> Error + unit \<Rightarrow> unit Task" where
  \<comment> \<open>\<open>rm(path, { recursive: true, force: true })\<close>: a failed removal leaves the directory\<close>
  "rm path outcome w =
     (outcome,
      w\<lparr>dirs := (case outcome of Inl _ \<Rightarrow> dirs w | Inr _ \<Rightarrow> dirs w - {path}),
        trace := trace w @ [Rm path]\<rparr>)"

subsection \<open>Paths\<close>

definition path_join :: "string \<Rightarrow> string \<Rightarrow> string" where
  \<comment> \<open>\<open>path.join(a, b)\<close> for a directory and one file name; normalisation is left out\<close>
  "path_join a b = a @ ''/'' @ b"

definition extname :: "string \<Rightarrow> string" where
  \<comment> \<open>Node's posix \<open>path.extname\<close>: from the last dot of the last path segment, empty when
      there is no dot, when the segment starts with its only dot, or when it is \<open>..\<close>\<close>
  "extname p =
     (let stripped = rev (dropWhile (\<lambda>c. c = CHR ''/'') (rev p));
          part = rev (takeWhile (\<lambda>c. c \<noteq> CHR ''/'') (rev stripped));
          after = takeWhile (\<lambda>c. c \<noteq> CHR ''.'') (rev part);
          startDot = length part - length after - 1
      in if CHR ''.'' \<notin> set part then []
         else if startDot = 0 then []
         else if part = ''..'' then []
         else drop startDot part)"

subsection \<open>What one request meets outside\<close>

record Env =
  tmpdir :: string
  mkdtemp_result :: "Error + string"
  writeFile_original :: "Error + unit"
  convertToWav_result :: "Error + unit"
  createInstrumental_result :: "Error + unit"
  asr_load :: Settlement
  asr_result :: "Error + AsrResult"
  translator_load :: Settlement
  translator_result :: "Error + TranslationResult"
  tts_load :: Settlement
  tts_result :: "Error + TtsResult"
  encode_result :: "Error + Buffer"
  writeFile_voice :: "Error + unit"
  normalizeVoice_result :: "Error + unit"
  mixTracks_result :: "Error + unit"
  readFile_result :: "Error + Buffer"
  rm_result :: "Error + unit"

text \<open>
  The three \<open>_load\<close> fields say how a pipeline construction started during this request
  settles; a promise already cached keeps the settlement it was created with.
\<close>

subsection \<open>The pure steps of the handler\<close>

definition transcriptText :: "AsrResult \<Rightarrow> string" where
  "transcriptText asrResult =
     (case asrResult of
        AsrString s \<Rightarrow> s
      | AsrObject t l \<Rightarrow> (case t of Some s \<Rightarrow> s | None \<Rightarrow> []))"

definition detectedLanguage :: "AsrResult \<Rightarrow> string option" where
  \<comment> \<open>\<open>typeof asrResult === 'object' && asrResult?.language\<close>; \<open>None\<close> stands for the
      values \<open>false\<close> and \<open>undefined\<close>\<close>
  "detectedLanguage asrResult =
     (case asrResult of AsrString s \<Rightarrow> None | AsrObject t l \<Rightarrow> l)"

definition src_lang :: "string option \<Rightarrow> string option" where
  \<comment> \<open>an empty string is falsy, as \<open>false\<close> and \<open>undefined\<close> are\<close>
  "src_lang detected =
     (case detected of
        None \<Rightarrow> map_of TRANSLATION_LANG ''en''
      | Some l \<Rightarrow>
          if l \<noteq> [] \<and> isSupportedLanguage l then map_of TRANSLATION_LANG l
          else map_of TRANSLATION_LANG ''en'')"

definition translatedText :: "TranslationResult \<Rightarrow> string" where
  "translatedText translationResult =
     (case translationResult of
        TrArray items \<Rightarrow>
          (case items of
             [] \<Rightarrow> []
           | ItemString s # _ \<Rightarrow> s
           | ItemObject t # _ \<Rightarrow> (case t of Some s \<Rightarrow> s | None \<Rightarrow> []))
      | TrString s \<Rightarrow> s
      | TrObject t \<Rightarrow> (case t of Some s \<Rightarrow> s | None \<Rightarrow> []))"

definition channelData :: "TtsAudio \<Rightarrow> Float32Array list" where
  "channelData audioData = (case audioData of OneChannel c \<Rightarrow> [c] | Channels cs \<Rightarrow> cs)"

definition success_response :: "Buffer \<Rightarrow> NextResponse" where
  \<open>success_response output =
     \<lparr> body = BinaryBody output, status = 200,
       headers = [(''Content-Type'', ''audio/mpeg''),
                  (''Content-Disposition'', ''attachment; filename="translated-mix.mp3"'')] \<rparr>\<close>

definition missing_audio_response :: NextResponse where
  "missing_audio_response =
     \<lparr> body = TextBody ''Missing audio file payload'', status = 400, headers = [] \<rparr>"

definition unsupported_language_response :: NextResponse where
  "unsupported_language_response =
     \<lparr> body = TextBody ''Unsupported target language'', status = 400, headers = [] \<rparr>"

definition failed_response :: NextResponse where
  "failed_response =
     \<lparr> body = TextBody ''Failed to process audio'', status = 500, headers = [] \<rparr>"

subsection \<open>The handler\<close>

definition process_steps ::
  "Env \<Rightarrow> Buffer \<Rightarrow> string \<Rightarrow> string \<Rightarrow> string \<Rightarrow> string \<Rightarrow> string \<Rightarrow> string \<Rightarrow> string \<Rightarrow>
   NextResponse Task" where
  \<comment> \<open>the statements of the inner \<open>try\<close>, lines 95 to 175, on the paths bound before them\<close>
  "process_steps env audioBuffer targetLanguage originalPath wavPath instrumentalPath
       voicePath voiceProcessedPath mixPath =
      andThen (outside (WriteFile originalPath audioBuffer) (writeFile_original env)) (\<lambda>_.
      andThen (outside (ConvertToWav originalPath wavPath) (convertToWav_result env)) (\<lambda>_.
      andThen (outside (CreateInstrumental wavPath instrumentalPath) (createInstrumental_result env)) (\<lambda>_.
      andThen (lift (getASR (asr_load env))) (\<lambda>asrPromise.
      andThen (await_promise asrPromise) (\<lambda>_.
      andThen (outside (AsrCall wavPath) (asr_result env)) (\<lambda>asrResult.
      if transcriptText asrResult = []
      then throw (Error ''Unable to derive transcript from audio.'')
      else
      andThen (lift (getTranslator (translator_load env))) (\<lambda>translatorPromise.
      andThen (await_promise translatorPromise) (\<lambda>_.
      andThen (outside (TranslatorCall (transcriptText asrResult)
                          (src_lang (detectedLanguage asrResult))
                          (map_of TRANSLATION_LANG targetLanguage))
                 (translator_result env)) (\<lambda>translationResult.
      if translatedText translationResult = []
      then throw (Error ''Translation failed to produce output.'')
      else
      andThen (lift (getTTS targetLanguage (tts_load env))) (\<lambda>ttsPromise.
      andThen (await_promise ttsPromise) (\<lambda>_.
      andThen (outside (TtsCall (translatedText translationResult)) (tts_result env)) (\<lambda>ttsResult.
      andThen (outside (WavEncode (sampling_rate ttsResult) (channelData (audio ttsResult)))
                 (encode_result env)) (\<lambda>wavArrayBuffer.
      andThen (outside (WriteFile voicePath wavArrayBuffer) (writeFile_voice env)) (\<lambda>_.
      andThen (outside (NormalizeVoice voicePath voiceProcessedPath) (normalizeVoice_result env)) (\<lambda>_.
      andThen (outside (MixTracks instrumentalPath voiceProcessedPath mixPath) (mixTracks_result env)) (\<lambda>_.
      andThen (outside (ReadFile mixPath) (readFile_result env)) (\<lambda>output.
      resolve (success_response output))))))))))))))))))"

definition process :: "Env \<Rightarrow> File \<Rightarrow> string \<Rightarrow> string \<Rightarrow> NextResponse Task" where
  \<comment> \<open>the block of the inner \<open>try\<close>: the paths of lines 87 to 93, then the statements\<close>
  "process env audioFile targetLanguage workspace =
     (let originalExt = (if extname (file_name audioFile) = [] then ''.wav''
                         else extname (file_name audioFile));
          originalPath = path_join workspace (''original'' @ originalExt);
          wavPath = path_join workspace ''original.wav'';
          instrumentalPath = path_join workspace ''instrumental.wav'';
          voicePath = path_join workspace ''voice.wav'';
          voiceProcessedPath = path_join workspace ''voice-processed.wav'';
          mixPath = path_join workspace ''mix.mp3''
      in process_steps env (file_bytes audioFile) targetLanguage originalPath wavPath
           instrumentalPath voicePath voiceProcessedPath mixPath)"

definition handle :: "Env \<Rightarrow> NextRequest \<Rightarrow> NextResponse Task" where
  \<comment> \<open>the block of the outer \<open>try\<close>, lines 70 to 178\<close>
  "handle env request =
     andThen (\<lambda>w. (formData request, w)) (\<lambda>fd.
       let audioFile = form_get fd ''audio'';
           targetLanguageRaw =
             (case form_get fd ''targetLanguage'' of None \<Rightarrow> StringValue ''es'' | Some v \<Rightarrow> v)
       in
       case audioFile of
         Some (FileValue file) \<Rightarrow>
           (case targetLanguageRaw of
              StringValue targetLanguage \<Rightarrow>
                if \<not> isSupportedLanguage targetLanguage
                then resolve unsupported_language_response
                else
                  andThen (mkdtemp (path_join (tmpdir env) ''audio-transform-'') (mkdtemp_result env))
                    (\<lambda>workspace.
                       tryFinally (process env file targetLanguage workspace)
                                  (rm workspace (rm_result env)))
            | FileValue _ \<Rightarrow> resolve unsupported_language_response)
       | _ \<Rightarrow> resolve missing_audio_response)"

definition POST :: "Env \<Rightarrow> NextRequest \<Rightarrow> World \<Rightarrow> NextResponse \<times> World" where
  "POST env request w =
     (case handle env request w of
        (Inr response, w') \<Rightarrow> (response, w')
      | (Inl error, w') \<Rightarrow> (failed_response, w'\<lparr>trace := trace w' @ [ConsoleError error]\<rparr>))"

section \<open>The source separator\<close>

text \<open>
  Modelled from the spec: \<open>createInstrumental\<close> of \<open>@/lib/audio\<close> is called by the route but
  is not among the sources. The specification's section 4.3 describes it as
  \<open>separateInstrumental\<close> on an AudioBuffer: samples per channel, a sample rate and one or
  two channels of equal length. The sample type is left open; the range of the samples
  plays no role here.
\<close>

record 'a AudioBuffer =
  sampleRate :: nat
  channelCount :: nat
  channels :: "'a list list"

datatype AudioError = InvalidAudioStateError

definition valid_buffer :: "'a AudioBuffer \<Rightarrow> bool" where
  \<comment> \<open>Modelled from the spec: one or two channels, all of equal length\<close>
  "valid_buffer b \<longleftrightarrow>
     (channelCount b = 1 \<or> channelCount b = 2) \<and>
     length (channels b) = channelCount b \<and>
     list_all (\<lambda>c. list_all (\<lambda>c'. length c = length c') (channels b)) (channels b)"

fun low_pass :: "'a::field \<Rightarrow> 'a list \<Rightarrow> 'a list" where
  \<comment> \<open>Modelled from the spec: the heuristic for mono input is only named there
      (low-pass-weighted suppression); here the mean of each sample and the one before\<close>
  "low_pass previous [] = []"
| "low_pass previous (x # xs) = (previous + x) / 2 # low_pass x xs"

definition separateInstrumental :: "'a::field AudioBuffer \<Rightarrow> AudioError + 'a AudioBuffer" where
  \<comment> \<open>Modelled from the spec: stereo input has one channel subtracted from the other
      (centre cancellation), mono input is filtered, and channels of unequal length are an
      \<open>InvalidAudioStateError\<close>\<close>
  "separateInstrumental b =
     (case channels b of
        [single] \<Rightarrow>
          if channelCount b = 1 then Inr (b\<lparr>channels := [low_pass 0 single]\<rparr>)
          else Inl InvalidAudioStateError
      | [left, right] \<Rightarrow>
          if channelCount b = 2 \<and> length left = length right
          then Inr (b\<lparr>channels := [map2 (-) left right, map2 (-) right left]\<rparr>)
          else Inl InvalidAudioStateError
      | _ \<Rightarrow> Inl InvalidAudioStateError)"

section \<open>Runs of getter calls\<close>

text \<open>
  The three getters are synchronous: between the test of the slot and the assignment
  nothing else runs. Whatever the interleaving of requests, the getter calls of a process
  form one sequence, starting from the freshly loaded module.
\<close>


datatype Getter = GetASR | GetTranslator | GetTTS string

fun call_getter :: "Getter \<Rightarrow> Settlement \<Rightarrow> World \<Rightarrow> Promise \<times> World" where
  "call_getter GetASR outcome w = getASR outcome w"
| "call_getter GetTranslator outcome w = getTranslator outcome w"
| "call_getter (GetTTS language) outcome w = getTTS language outcome w"

fun call_getters :: "(Getter \<times> Settlement) list \<Rightarrow> World \<Rightarrow> Promise list \<times> World" where
  "call_getters [] w = ([], w)"
| "call_getters ((g, outcome) # rest) w =
     (case call_getter g outcome w of (p, w') \<Rightarrow>
        (case call_getters rest w' of (ps, w'') \<Rightarrow> (p # ps, w'')))"

fun model_of :: "Getter \<Rightarrow> string \<times> string option" where
  "model_of GetASR = (''automatic-speech-recognition'', Some ''Xenova/whisper-small'')"
| "model_of GetTranslator = (''translation'', Some ''Xenova/m2m100_418M'')"
| "model_of (GetTTS language) = (''text-to-speech'', map_of TTS_MODEL language)"

fun slot :: "Getter \<Rightarrow> World \<Rightarrow> Promise option" where
  "slot GetASR w = asrPipelinePromise w"
| "slot GetTranslator w = translationPipelinePromise w"
| "slot (GetTTS language) w = ttsPipelines w language"

fun well_typed :: "Getter \<Rightarrow> bool" where
  "well_typed (GetTTS language) = isSupportedLanguage language"
| "well_typed _ = True"

text \<open>
  \<open>getTTS\<close> takes a \<open>SupportedLanguage\<close>; with strings for languages, that type is the
  predicate \<open>well_typed\<close>.
\<close>

definition cache_inv :: "World \<Rightarrow> bool" where
  "cache_inv w \<longleftrightarrow>
     distinct (constructions w) \<and>
     (\<forall>g. well_typed g \<longrightarrow> (model_of g \<in> set (constructions w) \<longleftrightarrow> slot g w \<noteq> None))"

definition five_calls :: "(Getter \<times> Settlement) list" where
  "five_calls = [(GetASR, Fulfilled), (GetTTS ''es'', Fulfilled), (GetASR, Fulfilled),
                 (GetTranslator, Fulfilled), (GetTTS ''es'', Rejected (Error ''x''))]"


section \<open>Runs of requests\<close>

text \<open>
  The requests of a process, one after the other, each with what it meets outside.
  \<open>needs g l\<close>: a request for target language \<open>l\<close> awaits the promise of getter \<open>g\<close>.
\<close>


fun run_requests :: "(Env \<times> NextRequest) list \<Rightarrow> World \<Rightarrow> NextResponse list \<times> World" where
  "run_requests [] w = ([], w)"
| "run_requests ((env, request) # rest) w =
     (case POST env request w of (response, w') \<Rightarrow>
        (case run_requests rest w' of (responses, w'') \<Rightarrow> (response # responses, w'')))"

fun needs :: "Getter \<Rightarrow> string \<Rightarrow> bool" where
  "needs GetASR l = True"
| "needs GetTranslator l = True"
| "needs (GetTTS language) l = (language = l)"

section \<open>Notions used in the statements\<close>

definition logged :: "Event \<Rightarrow> World \<Rightarrow> World" where
  "logged ev w = w\<lparr>trace := trace w @ [ev]\<rparr>"

definition made :: "string \<Rightarrow> World \<Rightarrow> World" where
  "made p w = w\<lparr>dirs := insert p (dirs w)\<rparr>"

definition removed :: "string \<Rightarrow> World \<Rightarrow> World" where
  "removed p w = w\<lparr>dirs := dirs w - {p}\<rparr>"

definition new_events :: "World \<Rightarrow> World \<Rightarrow> Event list" where
  \<comment> \<open>the calls recorded between two worlds of one run\<close>
  "new_events w w' = drop (length (trace w)) (trace w')"

definition validated :: "NextRequest \<Rightarrow> File \<Rightarrow> string \<Rightarrow> bool" where
  \<comment> \<open>the request passes both checks of lines 74 to 80, with this file and this language\<close>
  "validated request audioFile l \<longleftrightarrow>
     (case formData request of
        Inl _ \<Rightarrow> False
      | Inr fd \<Rightarrow>
          form_get fd ''audio'' = Some (FileValue audioFile) \<and>
          (case form_get fd ''targetLanguage'' of
             None \<Rightarrow> l = ''es''
           | Some v \<Rightarrow> v = StringValue l) \<and>
          isSupportedLanguage l)"

definition workspace_prefix :: "Env \<Rightarrow> string" where
  "workspace_prefix env = path_join (tmpdir env) ''audio-transform-''"

subsection \<open>Stages\<close>

text \<open>
  The stages of the specification's state machine, read off the recorded calls: a stage is
  entered when its call is made. Loading a model pipeline is not a stage.
\<close>


datatype Stage =
  Normalizing | Separating | Transcribing | Translating | Synthesizing | PostProcessingVoice | Mixing

fun stage_of :: "Event \<Rightarrow> Stage option" where
  "stage_of (ConvertToWav _ _) = Some Normalizing"
| "stage_of (CreateInstrumental _ _) = Some Separating"
| "stage_of (AsrCall _) = Some Transcribing"
| "stage_of (TranslatorCall _ _ _) = Some Translating"
| "stage_of (TtsCall _) = Some Synthesizing"
| "stage_of (NormalizeVoice _ _) = Some PostProcessingVoice"
| "stage_of (MixTracks _ _ _) = Some Mixing"
| "stage_of _ = None"

definition stages :: "Event list \<Rightarrow> Stage list" where
  "stages es = List.map_filter stage_of es"

definition stage_order :: "Stage list" where
  "stage_order = [Normalizing, Separating, Transcribing, Translating, Synthesizing,
                  PostProcessingVoice, Mixing]"

definition transcript_ok :: "Env \<Rightarrow> bool" where
  "transcript_ok env = (case asr_result env of Inl _ \<Rightarrow> False | Inr r \<Rightarrow> transcriptText r \<noteq> [])"

definition translation_ok :: "Env \<Rightarrow> bool" where
  "translation_ok env =
     (case translator_result env of Inl _ \<Rightarrow> False | Inr t \<Rightarrow> translatedText t \<noteq> [])"

fun rank :: "Stage \<Rightarrow> nat" where
  "rank Normalizing = 0"
| "rank Separating = 1"
| "rank Transcribing = 2"
| "rank Translating = 3"
| "rank Synthesizing = 4"
| "rank PostProcessingVoice = 5"
| "rank Mixing = 6"

text \<open>
  What the environment and the cached promises must be like for a stage to be entered:
  everything before it has succeeded.
\<close>

function entered :: "Env \<Rightarrow> World \<Rightarrow> string \<Rightarrow> Stage \<Rightarrow> bool" where
  "entered env w l Normalizing \<longleftrightarrow>
     \<not> isl (mkdtemp_result env) \<and> \<not> isl (writeFile_original env)"
| "entered env w l Separating \<longleftrightarrow>
     entered env w l Normalizing \<and> \<not> isl (convertToWav_result env)"
| "entered env w l Transcribing \<longleftrightarrow>
     entered env w l Separating \<and> \<not> isl (createInstrumental_result env) \<and>
     settlement (fst (getASR (asr_load env) w)) = Fulfilled"
| "entered env w l Translating \<longleftrightarrow>
     entered env w l Transcribing \<and> transcript_ok env \<and>
     settlement (fst (getTranslator (translator_load env) w)) = Fulfilled"
| "entered env w l Synthesizing \<longleftrightarrow>
     entered env w l Translating \<and> translation_ok env \<and>
     settlement (fst (getTTS l (tts_load env) w)) = Fulfilled"
| "entered env w l PostProcessingVoice \<longleftrightarrow>
     entered env w l Synthesizing \<and> \<not> isl (tts_result env) \<and> \<not> isl (encode_result env) \<and>
     \<not> isl (writeFile_voice env)"
| "entered env w l Mixing \<longleftrightarrow>
     entered env w l PostProcessingVoice \<and> \<not> isl (normalizeVoice_result env)"
  by pat_completeness auto
termination
  by (relation "measure (\<lambda>(env, w, l, s). rank s)") auto

declare entered.simps [simp del]

text \<open>
  A validated run returns the success response exactly when the last stage is entered and
  mixing, reading the mix and the cleanup succeed.
\<close>

definition run_succeeds :: "Env \<Rightarrow> World \<Rightarrow> string \<Rightarrow> bool" where
  "run_succeeds env w l \<longleftrightarrow>
     entered env w l Mixing \<and> \<not> isl (mixTracks_result env) \<and> \<not> isl (readFile_result env) \<and>
     \<not> isl (rm_result env)"

subsection \<open>The error that reaches the catch\<close>

text \<open>
  The statements of the inner block throw the error of the first step that fails, in the
  order of the program; \<open>thrown\<close> reads it off the environment and the cached promises.
  \<open>reported\<close> is the error that reaches the outer \<open>catch\<close> of a validated request: that of
  \<open>mkdtemp\<close>, else that of \<open>rm\<close>, which replaces whatever the block threw, else the error
  thrown by the block.
\<close>

definition failure :: "Error + 'a \<Rightarrow> Error option" where
  "failure outcome = (case outcome of Inl e \<Rightarrow> Some e | Inr _ \<Rightarrow> None)"

definition rejection :: "Promise \<Rightarrow> Error option" where
  "rejection p = (case settlement p of Rejected e \<Rightarrow> Some e | Fulfilled \<Rightarrow> None)"

definition unless :: "bool \<Rightarrow> Error \<Rightarrow> Error option" where
  "unless ok e = (if ok then None else Some e)"

fun first_error :: "Error option list \<Rightarrow> Error option" where
  "first_error [] = None"
| "first_error (None # rest) = first_error rest"
| "first_error (Some e # rest) = Some e"

definition thrown :: "Env \<Rightarrow> World \<Rightarrow> string \<Rightarrow> Error option" where
  "thrown env w l =
     first_error
       [failure (writeFile_original env),
        failure (convertToWav_result env),
        failure (createInstrumental_result env),
        rejection (fst (getASR (asr_load env) w)),
        failure (asr_result env),
        unless (transcript_ok env) (Error ''Unable to derive transcript from audio.''),
        rejection (fst (getTranslator (translator_load env) w)),
        failure (translator_result env),
        unless (translation_ok env) (Error ''Translation failed to produce output.''),
        rejection (fst (getTTS l (tts_load env) w)),
        failure (tts_result env),
        failure (encode_result env),
        failure (writeFile_voice env),
        failure (normalizeVoice_result env),
        failure (mixTracks_result env),
        failure (readFile_result env)]"

definition reported :: "Env \<Rightarrow> World \<Rightarrow> string \<Rightarrow> Error option" where
  "reported env w l =
     (case mkdtemp_result env of
        Inl e \<Rightarrow> Some e
      | Inr _ \<Rightarrow> (case rm_result env of Inl e \<Rightarrow> Some e | Inr _ \<Rightarrow> thrown env w l))"

subsection \<open>Sample inputs\<close>

definition env_ok :: Env where
  "env_ok = \<lparr> tmpdir = ''/tmp'', mkdtemp_result = Inr ''/tmp/audio-transform-abc'',
     writeFile_original = Inr (), convertToWav_result = Inr (), createInstrumental_result = Inr (),
     asr_load = Fulfilled, asr_result = Inr (AsrObject (Some ''hello'') None),
     translator_load = Fulfilled, translator_result = Inr (TrArray [ItemObject (Some ''hola'')]),
     tts_load = Fulfilled, tts_result = Inr \<lparr> audio = OneChannel [], sampling_rate = 16000 \<rparr>,
     encode_result = Inr [1, 2], writeFile_voice = Inr (), normalizeVoice_result = Inr (),
     mixTracks_result = Inr (), readFile_result = Inr [7, 8, 9], rm_result = Inr () \<rparr>"

definition env_rm_fails :: Env where
  "env_rm_fails = env_ok\<lparr>rm_result := Inl (Error ''EBUSY'')\<rparr>"

definition talk :: File where
  "talk = File ''talk.mp3'' [1, 2, 3]"

definition request_default :: NextRequest where
  \<comment> \<open>a form with the audio file and no \<open>targetLanguage\<close> field\<close>
  "request_default = \<lparr> formData = Inr [(''audio'', FileValue talk)] \<rparr>"

definition request_zz :: NextRequest where
  "request_zz =
     \<lparr> formData = Inr [(''audio'', FileValue talk), (''targetLanguage'', StringValue ''zz'')] \<rparr>"

definition env_convert_fails :: Env where
  "env_convert_fails = env_ok\<lparr>convertToWav_result := Inl (Error ''ffmpeg exited with code 1'')\<rparr>"


definition env_asr_broken :: Env where
  "env_asr_broken = env_ok\<lparr>asr_load := Rejected (Error ''model download failed'')\<rparr>"

definition two_second_stereo :: "real AudioBuffer" where
  "two_second_stereo =
     \<lparr> sampleRate = 2, channelCount = 2,
       channels = [[1/2, 1/4, 0, -1/4], [1/2, 0, 1/4, -1/2]] \<rparr>"

definition env_both_fail :: Env where
  "env_both_fail =
     env_ok\<lparr>convertToWav_result := Inl (Error ''ffmpeg exited with code 1''),
            rm_result := Inl (Error ''EBUSY'')\<rparr>"

definition broken :: Error where
  "broken = Error ''model download failed''"

section \<open>Lemmas\<close>

subsection \<open>World updates and single steps\<close>

lemma logged_fields:
  "trace (logged ev w) = trace w @ [ev]"
  "dirs (logged ev w) = dirs w"
  "constructions (logged ev w) = constructions w"
  "asrPipelinePromise (logged ev w) = asrPipelinePromise w"
  "translationPipelinePromise (logged ev w) = translationPipelinePromise w"
  "ttsPipelines (logged ev w) = ttsPipelines w"
  by (simp_all add: logged_def)

lemma made_fields:
  "trace (made p w) = trace w"
  "dirs (made p w) = insert p (dirs w)"
  "constructions (made p w) = constructions w"
  "asrPipelinePromise (made p w) = asrPipelinePromise w"
  "translationPipelinePromise (made p w) = translationPipelinePromise w"
  "ttsPipelines (made p w) = ttsPipelines w"
  by (simp_all add: made_def)

lemma removed_fields:
  "trace (removed p w) = trace w"
  "dirs (removed p w) = dirs w - {p}"
  "constructions (removed p w) = constructions w"
  "asrPipelinePromise (removed p w) = asrPipelinePromise w"
  "translationPipelinePromise (removed p w) = translationPipelinePromise w"
  "ttsPipelines (removed p w) = ttsPipelines w"
  by (simp_all add: removed_def)

lemma andThen_outside:
  "andThen (outside ev outcome) f w =
     (case outcome of Inl e \<Rightarrow> (Inl e, logged ev w) | Inr x \<Rightarrow> f x (logged ev w))"
  by (simp add: andThen_def outside_def logged_def split: sum.splits)

lemma andThen_lift:
  "andThen (lift g) f w = f (fst (g w)) (snd (g w))"
  by (simp add: andThen_def lift_def split: prod.splits)

lemma andThen_await:
  "andThen (await_promise p) f w =
     (case settlement p of Fulfilled \<Rightarrow> f () w | Rejected e \<Rightarrow> (Inl e, w))"
  by (simp add: andThen_def await_promise_def resolve_def throw_def split: Settlement.splits)

lemmas exec = andThen_outside andThen_lift andThen_await resolve_def throw_def

lemma getter_frame:
  "dirs (snd (getASR oc w)) = dirs w" "trace (snd (getASR oc w)) = trace w"
  "dirs (snd (getTranslator oc w)) = dirs w" "trace (snd (getTranslator oc w)) = trace w"
  "dirs (snd (getTTS l oc w)) = dirs w" "trace (snd (getTTS l oc w)) = trace w"
  by (simp_all add: getASR_def getTranslator_def getTTS_def pipeline_def split: option.splits)

lemma settlement_frame:
  "settlement (fst (getASR oc (logged ev w))) = settlement (fst (getASR oc w))"
  "settlement (fst (getASR oc (made p w))) = settlement (fst (getASR oc w))"
  "settlement (fst (getTranslator oc (logged ev w))) = settlement (fst (getTranslator oc w))"
  "settlement (fst (getTranslator oc (made p w))) = settlement (fst (getTranslator oc w))"
  "settlement (fst (getTranslator oc (snd (getASR oc' w)))) = settlement (fst (getTranslator oc w))"
  "settlement (fst (getTTS l oc (logged ev w))) = settlement (fst (getTTS l oc w))"
  "settlement (fst (getTTS l oc (made p w))) = settlement (fst (getTTS l oc w))"
  "settlement (fst (getTTS l oc (snd (getASR oc' w)))) = settlement (fst (getTTS l oc w))"
  "settlement (fst (getTTS l oc (snd (getTranslator oc' w)))) = settlement (fst (getTTS l oc w))"
  by (simp_all add: getASR_def getTranslator_def getTTS_def pipeline_def logged_def made_def
               split: option.splits)

lemma mkdtemp_made:
  "mkdtemp pre (Inr ws) w = (Inr ws, logged (Mkdtemp pre) (made ws w))"
  "mkdtemp pre (Inl e) w = (Inl e, logged (Mkdtemp pre) w)"
  by (simp_all add: mkdtemp_def logged_def made_def)

lemma rm_removed:
  "rm ws (Inr u) w = (Inr u, logged (Rm ws) (removed ws w))"
  "rm ws (Inl e) w = (Inl e, logged (Rm ws) w)"
  by (simp_all add: rm_def logged_def removed_def)

lemma new_events_append: "trace w' = trace w @ es \<Longrightarrow> new_events w w' = es"
  by (simp add: new_events_def)

lemma new_events_self: "new_events w w = []"
  by (simp add: new_events_def)

lemma new_events_logged: "new_events w (logged ev w) = [ev]"
  by (simp add: new_events_def logged_fields)

lemma status_simps:
  "status failed_response = 500"
  "status missing_audio_response = 400"
  "status unsupported_language_response = 400"
  "status (success_response out) = 200"
  by (simp_all add: failed_response_def missing_audio_response_def
        unsupported_language_response_def success_response_def)

lemma stages_simps:
  "stages [] = []"
  "stages (ev # es) = (case stage_of ev of None \<Rightarrow> stages es | Some s \<Rightarrow> s # stages es)"
  "stages (es @ es') = stages es @ stages es'"
  by (simp_all add: stages_def List.map_filter_def split: option.splits)

subsection \<open>The getters\<close>

lemma supported_cases:
  "isSupportedLanguage l \<longleftrightarrow> l \<in> {''en'', ''es'', ''fr'', ''de'', ''it'', ''pt''}"
  by (simp add: isSupportedLanguage_def TTS_MODEL_def)

lemma model_of_inj:
  "well_typed g \<Longrightarrow> well_typed h \<Longrightarrow> model_of g = model_of h \<Longrightarrow> g = h"
  by (cases g; cases h) (auto simp: supported_cases TTS_MODEL_def)

lemma slot_other:
  "slot h (snd (call_getter g outcome w)) = (if h = g then Some (fst (call_getter g outcome w)) else slot h w)"
  by (cases g; cases h)
     (auto simp: getASR_def getTranslator_def getTTS_def pipeline_def split: option.splits)

lemma call_getter_cached:
  "slot g w = Some p \<Longrightarrow> call_getter g outcome w = (p, w)"
  by (cases g) (auto simp: getASR_def getTranslator_def getTTS_def)

lemma call_getter_fresh:
  "slot g w = None \<Longrightarrow>
   constructions (snd (call_getter g outcome w)) = constructions w @ [model_of g]"
  by (cases g) (auto simp: getASR_def getTranslator_def getTTS_def pipeline_def)

lemma cache_inv_initial: "cache_inv initial"
  unfolding cache_inv_def initial_def
proof (intro conjI allI impI)
  fix g show "(model_of g \<in> set (constructions \<lparr>asrPipelinePromise = None, translationPipelinePromise = None,
               ttsPipelines = Map.empty, constructions = [], dirs = {}, trace = []\<rparr>)) =
        (slot g \<lparr>asrPipelinePromise = None, translationPipelinePromise = None,
               ttsPipelines = Map.empty, constructions = [], dirs = {}, trace = []\<rparr> \<noteq> None)"
    by (cases g) auto
qed simp

lemma cache_inv_step:
  assumes "cache_inv w" and "well_typed g"
  shows "cache_inv (snd (call_getter g outcome w))"
proof (cases "slot g w")
  case (Some p)
  then show ?thesis using assms by (simp add: call_getter_cached)
next
  case None
  have new: "model_of g \<notin> set (constructions w)"
    using assms None by (auto simp: cache_inv_def)
  show ?thesis
    unfolding cache_inv_def
  proof (intro conjI allI impI)
    show "distinct (constructions (snd (call_getter g outcome w)))"
      using assms new None by (simp add: call_getter_fresh cache_inv_def)
  next
    fix h assume h: "well_typed h"
    show "(model_of h \<in> set (constructions (snd (call_getter g outcome w)))) =
          (slot h (snd (call_getter g outcome w)) \<noteq> None)"
      using assms h None model_of_inj[of h g]
      by (auto simp: call_getter_fresh slot_other cache_inv_def)
  qed
qed

lemma slot_kept:
  "slot g w = Some p \<Longrightarrow> slot g (snd (call_getter h outcome w)) = Some p"
  by (cases "h = g") (simp_all add: slot_other call_getter_cached)

lemma call_getters_Cons:
  "call_getters ((g, outcome) # rest) w =
     (fst (call_getter g outcome w) # fst (call_getters rest (snd (call_getter g outcome w))),
      snd (call_getters rest (snd (call_getter g outcome w))))"
  by (simp split: prod.splits)

lemma slot_kept_all:
  "slot g w = Some p \<Longrightarrow> slot g (snd (call_getters cs w)) = Some p"
proof (induction cs arbitrary: w)
  case Nil
  then show ?case by simp
next
  case (Cons c cs)
  obtain h outcome where c: "c = (h, outcome)" by (cases c)
  have "slot g (snd (call_getter h outcome w)) = Some p"
    using Cons.prems by (rule slot_kept)
  then have "slot g (snd (call_getters cs (snd (call_getter h outcome w)))) = Some p"
    by (rule Cons.IH)
  then show ?case by (simp add: c call_getters_Cons del: call_getters.simps)
qed

lemma length_call_getters: "length (fst (call_getters cs w)) = length cs"
  by (induction cs arbitrary: w) (auto simp: call_getters_Cons simp del: call_getters.simps(2))

lemma returned_is_cached:
  "i < length cs \<Longrightarrow>
   slot (fst (cs ! i)) (snd (call_getters cs w)) = Some (fst (call_getters cs w) ! i)"
proof (induction cs arbitrary: i w)
  case Nil
  then show ?case by simp
next
  case (Cons c cs)
  obtain h outcome where c: "c = (h, outcome)" by (cases c)
  let ?w1 = "snd (call_getter h outcome w)"
  show ?case
  proof (cases i)
    case 0
    have "slot h ?w1 = Some (fst (call_getter h outcome w))"
      by (simp add: slot_other)
    then have "slot h (snd (call_getters cs ?w1)) = Some (fst (call_getter h outcome w))"
      by (rule slot_kept_all)
    then show ?thesis by (simp add: c 0 call_getters_Cons del: call_getters.simps)
  next
    case (Suc k)
    then have "k < length cs" using Cons.prems by simp
    then have "slot (fst (cs ! k)) (snd (call_getters cs ?w1)) = Some (fst (call_getters cs ?w1) ! k)"
      by (rule Cons.IH)
    then show ?thesis by (simp add: c Suc call_getters_Cons del: call_getters.simps)
  qed
qed

lemma cache_inv_all:
  "cache_inv w \<Longrightarrow> \<forall>g \<in> fst ` set cs. well_typed g \<Longrightarrow> cache_inv (snd (call_getters cs w))"
proof (induction cs arbitrary: w)
  case Nil
  then show ?case by simp
next
  case (Cons c cs)
  obtain h outcome where c: "c = (h, outcome)" by (cases c)
  have "cache_inv (snd (call_getter h outcome w))"
    using Cons.prems by (simp add: c cache_inv_step)
  then have "cache_inv (snd (call_getters cs (snd (call_getter h outcome w))))"
    using Cons.prems by (intro Cons.IH) simp_all
  then show ?case by (simp add: c call_getters_Cons del: call_getters.simps)
qed

lemma constructions_step:
  assumes "cache_inv w" and "well_typed g"
  shows "set (constructions (snd (call_getter g outcome w))) = insert (model_of g) (set (constructions w))"
proof (cases "slot g w")
  case None
  then show ?thesis by (simp add: call_getter_fresh)
next
  case (Some p)
  then have "model_of g \<in> set (constructions w)"
    using assms by (auto simp: cache_inv_def)
  then show ?thesis using Some by (auto simp: call_getter_cached)
qed

lemma constructions_all:
  "cache_inv w \<Longrightarrow> \<forall>g \<in> fst ` set cs. well_typed g \<Longrightarrow>
   set (constructions (snd (call_getters cs w))) = set (constructions w) \<union> model_of ` fst ` set cs"
proof (induction cs arbitrary: w)
  case Nil
  then show ?case by simp
next
  case (Cons c cs)
  obtain h outcome where c: "c = (h, outcome)" by (cases c)
  let ?w1 = "snd (call_getter h outcome w)"
  have inv1: "cache_inv ?w1" using Cons.prems by (simp add: c cache_inv_step)
  have "set (constructions (snd (call_getters cs ?w1))) = set (constructions ?w1) \<union> model_of ` fst ` set cs"
    using inv1 Cons.prems by (intro Cons.IH) simp_all
  moreover have "set (constructions ?w1) = insert (model_of h) (set (constructions w))"
    using Cons.prems by (simp add: c constructions_step)
  ultimately show ?case by (auto simp: c call_getters_Cons simp del: call_getters.simps)
qed

lemma slot_frame:
  "slot g (logged ev w) = slot g w"
  "slot g (made p w) = slot g w"
  "slot g (removed p w) = slot g w"
  by (cases g; simp add: logged_fields made_fields removed_fields)+

lemma slot_getter:
  "slot g w \<noteq> None \<Longrightarrow> slot g (snd (getASR oc w)) = slot g w"
  "slot g w \<noteq> None \<Longrightarrow> slot g (snd (getTranslator oc w)) = slot g w"
  "slot g w \<noteq> None \<Longrightarrow> slot g (snd (getTTS l oc w)) = slot g w"
  using slot_kept [of g w _ GetASR oc] slot_kept [of g w _ GetTranslator oc]
    slot_kept [of g w _ "GetTTS l" oc]
  by auto

lemma cache_inv_frame:
  "cache_inv (logged ev w) = cache_inv w"
  "cache_inv (made p w) = cache_inv w"
  "cache_inv (removed p w) = cache_inv w"
  by (simp_all add: cache_inv_def slot_frame logged_fields made_fields removed_fields)

lemma cache_inv_getter:
  "cache_inv w \<Longrightarrow> cache_inv (snd (getASR oc w))"
  "cache_inv w \<Longrightarrow> cache_inv (snd (getTranslator oc w))"
  "cache_inv w \<Longrightarrow> isSupportedLanguage l \<Longrightarrow> cache_inv (snd (getTTS l oc w))"
  using cache_inv_step [of w GetASR oc] cache_inv_step [of w GetTranslator oc]
    cache_inv_step [of w "GetTTS l" oc]
  by simp_all

lemma supported_translation_lang:
  "isSupportedLanguage l \<Longrightarrow> map_of TRANSLATION_LANG l = Some l"
  by (auto simp: supported_cases TRANSLATION_LANG_def)

lemma src_lang_cases:
  "src_lang d =
     (case d of None \<Rightarrow> Some ''en''
              | Some l \<Rightarrow> if isSupportedLanguage l then Some l else Some ''en'')"
proof (cases d)
  case None
  then show ?thesis by (simp add: src_lang_def TRANSLATION_LANG_def)
next
  case (Some l)
  have "\<not> isSupportedLanguage []" by (simp add: supported_cases)
  moreover have "map_of TRANSLATION_LANG ''en'' = Some ''en''"
    by (simp add: TRANSLATION_LANG_def)
  ultimately show ?thesis
    using Some supported_translation_lang [of l]
    by (auto simp: src_lang_def)
qed

subsection \<open>The statements of the inner block, path by path\<close>

text \<open>
  Each lemma runs the statements on every path at once: one case for each step that can
  throw. The paths are parameters, so that no string is looked into.
\<close>

lemma steps_trace:
  "trace (snd (process_steps env b l p1 p2 p3 p4 p5 p6 w)) =
   trace w @ new_events w (snd (process_steps env b l p1 p2 p3 p4 p5 p6 w))"
  unfolding process_steps_def new_events_def
  by (simp add: exec getter_frame logged_fields split: sum.split Settlement.split)

lemma steps_dirs: "dirs (snd (process_steps env b l p1 p2 p3 p4 p5 p6 w)) = dirs w"
  unfolding process_steps_def
  by (simp add: exec getter_frame logged_fields split: sum.split Settlement.split)

lemma steps_no_rm:
  "Rm p \<notin> set (new_events w (snd (process_steps env b l p1 p2 p3 p4 p5 p6 w)))"
  unfolding process_steps_def new_events_def
  by (simp add: exec getter_frame logged_fields split: sum.split Settlement.split)

lemma steps_prefix:
  "prefix (stages (new_events w (snd (process_steps env b l p1 p2 p3 p4 p5 p6 w)))) stage_order"
  unfolding process_steps_def new_events_def stages_def stage_order_def
  by (simp add: exec getter_frame logged_fields List.map_filter_simps
        split: sum.split Settlement.split)

lemma steps_entered:
  assumes "mkdtemp_result env = Inr ws"
  shows "s \<in> set (stages (new_events w (snd (process_steps env b l p1 p2 p3 p4 p5 p6 w)))) \<longleftrightarrow>
         entered env w l s"
  unfolding process_steps_def new_events_def stages_def
  by (cases s)
     (simp_all add: exec getter_frame logged_fields settlement_frame assms entered.simps transcript_ok_def
        translation_ok_def List.map_filter_simps split: sum.split Settlement.split)

lemma steps_succeeds:
  assumes "mkdtemp_result env = Inr ws"
  shows "\<not> isl (fst (process_steps env b l p1 p2 p3 p4 p5 p6 w)) \<longleftrightarrow>
         entered env w l Mixing \<and> \<not> isl (mixTracks_result env) \<and> \<not> isl (readFile_result env)"
  unfolding process_steps_def
  by (simp add: exec getter_frame logged_fields settlement_frame assms entered.simps transcript_ok_def
        translation_ok_def split: sum.split Settlement.split)

lemma steps_response:
  "fst (process_steps env b l p1 p2 p3 p4 p5 p6 w) = Inr r \<Longrightarrow>
   \<exists>out. readFile_result env = Inr out \<and> r = success_response out"
  unfolding process_steps_def
  by (simp add: exec split: sum.split_asm Settlement.split_asm if_split_asm)



lemma steps_translator_call:
  assumes "mkdtemp_result env = Inr ws"
  shows "TranslatorCall t s g \<in> set (new_events w (snd (process_steps env b l p1 p2 p3 p4 p5 p6 w))) \<longleftrightarrow>
         entered env w l Translating \<and>
         (\<exists>r. asr_result env = Inr r \<and> t = transcriptText r \<and> s = src_lang (detectedLanguage r)) \<and>
         g = map_of TRANSLATION_LANG l"
  unfolding process_steps_def new_events_def
  by (auto simp add: exec getter_frame logged_fields settlement_frame assms entered.simps transcript_ok_def
        translation_ok_def split: sum.split Settlement.split)

lemma steps_slot_kept:
  assumes "slot g w = Some p"
  shows "slot g (snd (process_steps env b l p1 p2 p3 p4 p5 p6 w)) = Some p"
  unfolding process_steps_def
  by (simp add: exec slot_frame slot_getter assms split: sum.split Settlement.split)

lemma steps_cache_inv:
  assumes "cache_inv w" and "isSupportedLanguage l"
  shows "cache_inv (snd (process_steps env b l p1 p2 p3 p4 p5 p6 w))"
  unfolding process_steps_def
  by (simp add: exec cache_inv_frame cache_inv_getter assms split: sum.split Settlement.split)

lemma process_trace:
  "trace (snd (process env f l ws w)) = trace w @ new_events w (snd (process env f l ws w))"
  unfolding process_def Let_def by (rule steps_trace)

lemma process_dirs: "dirs (snd (process env f l ws w)) = dirs w"
  unfolding process_def Let_def by (rule steps_dirs)

lemma process_no_rm: "Rm p \<notin> set (new_events w (snd (process env f l ws w)))"
  unfolding process_def Let_def by (rule steps_no_rm)

lemma process_prefix:
  "prefix (stages (new_events w (snd (process env f l ws w)))) stage_order"
  unfolding process_def Let_def by (rule steps_prefix)

lemma process_stages_entered:
  assumes "mkdtemp_result env = Inr ws"
  shows "s \<in> set (stages (new_events w (snd (process env f l ws' w)))) \<longleftrightarrow> entered env w l s"
  unfolding process_def Let_def using assms by (rule steps_entered)

lemma process_succeeds:
  assumes "mkdtemp_result env = Inr ws"
  shows "\<not> isl (fst (process env f l ws' w)) \<longleftrightarrow>
         entered env w l Mixing \<and> \<not> isl (mixTracks_result env) \<and> \<not> isl (readFile_result env)"
  unfolding process_def Let_def using assms by (rule steps_succeeds)

lemma process_response:
  "fst (process env f l ws w) = Inr r \<Longrightarrow>
   \<exists>out. readFile_result env = Inr out \<and> r = success_response out"
  unfolding process_def Let_def by (rule steps_response)



lemma process_translator_call:
  assumes "mkdtemp_result env = Inr ws"
  shows "TranslatorCall t s g \<in> set (new_events w (snd (process env f l ws' w))) \<longleftrightarrow>
         entered env w l Translating \<and>
         (\<exists>r. asr_result env = Inr r \<and> t = transcriptText r \<and> s = src_lang (detectedLanguage r)) \<and>
         g = map_of TRANSLATION_LANG l"
  unfolding process_def Let_def using assms by (rule steps_translator_call)

lemma process_slot_kept:
  assumes "slot g w = Some p"
  shows "slot g (snd (process env f l ws w)) = Some p"
  unfolding process_def Let_def using assms by (rule steps_slot_kept)

lemma process_cache_inv:
  assumes "cache_inv w" and "isSupportedLanguage l"
  shows "cache_inv (snd (process env f l ws w))"
  unfolding process_def Let_def using assms by (rule steps_cache_inv)

lemma entered_frame:
  "entered env (logged ev w) l s = entered env w l s"
  "entered env (made p w) l s = entered env w l s"
  by (cases s; simp add: entered.simps settlement_frame)+


lemma prefix_with_last_stage:
  assumes "prefix xs stage_order" and "Mixing \<in> set xs"
  shows "xs = stage_order"
proof -
  have "xs \<in> set (prefixes stage_order)"
    using assms(1) by (simp add: in_set_prefixes)
  then show ?thesis
    using assms(2) by (auto simp: stage_order_def)
qed

subsection \<open>A whole request\<close>

lemma handle_validated:
  assumes "validated request file l"
  shows "handle env request w =
           andThen (mkdtemp (workspace_prefix env) (mkdtemp_result env))
             (\<lambda>workspace. tryFinally (process env file l workspace)
                                      (rm workspace (rm_result env))) w"
  using assms
  by (auto simp: validated_def handle_def andThen_def workspace_prefix_def
           split: sum.splits option.splits FormDataEntryValue.splits)

lemma POST_validated:
  assumes "validated request file l"
  shows "POST env request w =
    (case mkdtemp_result env of
       Inl e \<Rightarrow> (failed_response, logged (ConsoleError e) (logged (Mkdtemp (workspace_prefix env)) w))
     | Inr ws \<Rightarrow>
         (case rm_result env of
            Inl e \<Rightarrow>
              (failed_response,
               logged (ConsoleError e) (logged (Rm ws)
                 (snd (process env file l ws (logged (Mkdtemp (workspace_prefix env)) (made ws w))))))
          | Inr u \<Rightarrow>
              (case fst (process env file l ws (logged (Mkdtemp (workspace_prefix env)) (made ws w))) of
                 Inl e \<Rightarrow>
                   (failed_response,
                    logged (ConsoleError e) (logged (Rm ws) (removed ws
                      (snd (process env file l ws (logged (Mkdtemp (workspace_prefix env)) (made ws w)))))))
               | Inr response \<Rightarrow>
                   (response,
                    logged (Rm ws) (removed ws
                      (snd (process env file l ws (logged (Mkdtemp (workspace_prefix env)) (made ws w)))))))))"
  by (simp add: POST_def handle_validated[OF assms] andThen_def tryFinally_def mkdtemp_made rm_removed
        logged_def[symmetric] split: sum.splits prod.splits)

lemma POST_not_validated:
  assumes "formData request = Inr fd" and "\<And>file l. \<not> validated request file l"
  shows "POST env request w = (missing_audio_response, w) \<or>
         POST env request w = (unsupported_language_response, w)"
  using assms(2) unfolding validated_def assms(1)
  by (auto simp: POST_def handle_def andThen_def resolve_def assms(1)
           split: sum.splits option.splits FormDataEntryValue.splits)

lemma POST_unparsed:
  assumes "formData request = Inl e"
  shows "POST env request w = (failed_response, logged (ConsoleError e) w)"
  by (simp add: POST_def handle_def andThen_def assms logged_def)

lemma POST_rejected:
  assumes "formData request = Inr fd" and "\<And>f l. \<not> validated request f l"
  shows "POST env request w =
           (if \<exists>f. form_get fd ''audio'' = Some (FileValue f)
            then unsupported_language_response else missing_audio_response, w)"
  using assms(2) unfolding validated_def assms(1)
  by (auto simp: POST_def handle_def andThen_def resolve_def assms(1)
           split: sum.splits option.splits FormDataEntryValue.splits)

lemma validated_target:
  assumes "validated request f l"
  shows "\<exists>fd. formData request = Inr fd \<and> isSupportedLanguage l \<and>
          (case form_get fd ''targetLanguage'' of
             None \<Rightarrow> l = ''es''
           | Some v \<Rightarrow> v = StringValue l)"
  using assms by (auto simp: validated_def split: sum.splits)

lemma success_is_validated:
  assumes "status (fst (POST env request w)) = 200"
  obtains f l where "validated request f l"
proof (cases "formData request")
  case (Inl e)
  then show ?thesis using assms by (simp add: POST_unparsed status_simps)
next
  case (Inr fd)
  show ?thesis
  proof (cases "\<exists>f l. validated request f l")
    case True
    then show ?thesis using that by blast
  next
    case False
    then have "POST env request w =
           (if \<exists>f. form_get fd ''audio'' = Some (FileValue f)
            then unsupported_language_response else missing_audio_response, w)"
      using POST_rejected [OF Inr] by blast
    then show ?thesis using assms by (simp add: status_simps split: if_splits)
  qed
qed

lemma POST_events:
  assumes "validated request f l"
  shows "case mkdtemp_result env of
           Inl e \<Rightarrow>
             new_events w (snd (POST env request w)) =
               [Mkdtemp (workspace_prefix env), ConsoleError e] \<and>
             fst (POST env request w) = failed_response
         | Inr ws \<Rightarrow>
             (let w1 = logged (Mkdtemp (workspace_prefix env)) (made ws w);
                  es = new_events w1 (snd (process env f l ws w1))
              in if run_succeeds env w l
                 then new_events w (snd (POST env request w)) =
                        Mkdtemp (workspace_prefix env) # es @ [Rm ws] \<and>
                      (\<exists>out. readFile_result env = Inr out \<and>
                             fst (POST env request w) = success_response out)
                 else (\<exists>e. new_events w (snd (POST env request w)) =
                             Mkdtemp (workspace_prefix env) # es @ [Rm ws, ConsoleError e] \<and>
                           (isl (rm_result env) \<longrightarrow> rm_result env = Inl e) \<and>
                           (\<not> isl (rm_result env) \<longrightarrow>
                              fst (process env f l ws w1) = Inl e)) \<and>
                      fst (POST env request w) = failed_response)"
proof (cases "mkdtemp_result env")
  case (Inl e)
  have "new_events w (snd (POST env request w)) = [Mkdtemp (workspace_prefix env), ConsoleError e]"
    by (rule new_events_append) (simp add: POST_validated [OF assms] Inl logged_fields)
  then show ?thesis by (simp add: Inl POST_validated [OF assms])
next
  case (Inr ws)
  let ?w1 = "logged (Mkdtemp (workspace_prefix env)) (made ws w)"
  let ?w2 = "snd (process env f l ws ?w1)"
  let ?es = "new_events ?w1 ?w2"
  have tr: "trace ?w2 = trace w @ Mkdtemp (workspace_prefix env) # ?es"
    using process_trace [of env f l ws "?w1"] by (simp add: logged_fields made_fields)
  have ok: "\<not> isl (fst (process env f l ws ?w1)) \<longleftrightarrow>
        entered env w l Mixing \<and> \<not> isl (mixTracks_result env) \<and> \<not> isl (readFile_result env)"
    using process_succeeds [OF Inr, of f l ws "?w1"] by (simp add: entered_frame)
  show ?thesis
  proof (cases "rm_result env")
    case rm: (Inl e)
    have "new_events w (snd (POST env request w)) =
          Mkdtemp (workspace_prefix env) # ?es @ [Rm ws, ConsoleError e]"
      by (rule new_events_append)
         (simp add: POST_validated [OF assms] Inr rm logged_fields tr)
    then show ?thesis
      by (simp add: Inr rm run_succeeds_def POST_validated [OF assms])
  next
    case rm: (Inr u)
    show ?thesis
    proof (cases "fst (process env f l ws ?w1)")
      case (Inl e)
      have "new_events w (snd (POST env request w)) =
            Mkdtemp (workspace_prefix env) # ?es @ [Rm ws, ConsoleError e]"
        by (rule new_events_append)
           (simp add: POST_validated [OF assms] Inr rm Inl logged_fields removed_fields tr)
      moreover have "\<not> run_succeeds env w l"
        using ok Inl by (auto simp: run_succeeds_def)
      ultimately show ?thesis
        by (simp add: Inr rm Inl POST_validated [OF assms])
    next
      case r: (Inr response)
      have "new_events w (snd (POST env request w)) =
            Mkdtemp (workspace_prefix env) # ?es @ [Rm ws]"
        by (rule new_events_append)
           (simp add: POST_validated [OF assms] Inr rm r logged_fields removed_fields tr)
      moreover have "run_succeeds env w l"
        using ok r rm by (auto simp: run_succeeds_def)
      moreover have "\<exists>out. readFile_result env = Inr out \<and> response = success_response out"
        using r by (rule process_response)
      ultimately show ?thesis
        by (simp add: Inr rm r POST_validated [OF assms])
    qed
  qed
qed

lemma POST_validated_outcome:
  assumes "validated request f l"
  shows "if run_succeeds env w l
         then \<exists>out. readFile_result env = Inr out \<and> fst (POST env request w) = success_response out
         else fst (POST env request w) = failed_response \<and>
              (\<exists>es e. new_events w (snd (POST env request w)) = es @ [ConsoleError e])"
proof (cases "mkdtemp_result env")
  case (Inl e)
  then have "\<not> run_succeeds env w l"
    by (simp add: run_succeeds_def entered.simps)
  moreover have "new_events w (snd (POST env request w)) = [Mkdtemp (workspace_prefix env)] @ [ConsoleError e]"
    using POST_events [OF assms, where env = env and w = w] Inl by simp
  ultimately show ?thesis
    using POST_events [OF assms, where env = env and w = w] Inl by (auto simp del: append.simps)
next
  case (Inr ws)
  show ?thesis
  proof (cases "run_succeeds env w l")
    case True
    then show ?thesis using POST_events [OF assms, where env = env and w = w] Inr by (simp add: Let_def)
  next
    case False
    let ?w1 = "logged (Mkdtemp (workspace_prefix env)) (made ws w)"
    obtain e where "new_events w (snd (POST env request w)) =
        (Mkdtemp (workspace_prefix env) # new_events ?w1 (snd (process env f l ws ?w1)) @ [Rm ws]) @ [ConsoleError e]"
      and "fst (POST env request w) = failed_response"
      using POST_events [OF assms, where env = env and w = w] Inr False by (auto simp: Let_def)
    then show ?thesis using False by (auto simp del: append.simps append_assoc)
  qed
qed

lemma POST_stages:
  assumes "validated request f l"
  shows "s \<in> set (stages (new_events w (snd (POST env request w)))) \<longleftrightarrow> entered env w l s"
    and "prefix (stages (new_events w (snd (POST env request w)))) stage_order"
    and "mkdtemp_result env = Inr ws \<Longrightarrow>
         stages (new_events w (snd (POST env request w))) =
         stages (new_events (logged (Mkdtemp (workspace_prefix env)) (made ws w))
                   (snd (process env f l ws (logged (Mkdtemp (workspace_prefix env)) (made ws w)))))"
proof -
  let ?new = "new_events w (snd (POST env request w))"
  have "(s \<in> set (stages ?new) \<longleftrightarrow> entered env w l s) \<and> prefix (stages ?new) stage_order \<and>
        (\<forall>ws. mkdtemp_result env = Inr ws \<longrightarrow> stages ?new =
         stages (new_events (logged (Mkdtemp (workspace_prefix env)) (made ws w))
                   (snd (process env f l ws (logged (Mkdtemp (workspace_prefix env)) (made ws w))))))"
  proof (cases "mkdtemp_result env")
    case (Inl e)
    then have "?new = [Mkdtemp (workspace_prefix env), ConsoleError e]"
      using POST_events [OF assms, where env = env and w = w] by simp
    moreover have "\<not> entered env w l s"
      using Inl by (cases s) (simp_all add: entered.simps)
    ultimately show ?thesis using Inl by (simp add: stages_simps)
  next
    case (Inr ws)
    let ?w1 = "logged (Mkdtemp (workspace_prefix env)) (made ws w)"
    let ?es = "new_events ?w1 (snd (process env f l ws ?w1))"
    have "?new = Mkdtemp (workspace_prefix env) # ?es @ [Rm ws] \<or>
          (\<exists>e. ?new = Mkdtemp (workspace_prefix env) # ?es @ [Rm ws, ConsoleError e])"
      using POST_events [OF assms, where env = env and w = w] Inr
      by (auto simp: Let_def split: if_splits)
    then have st: "stages ?new = stages ?es"
      by (auto simp: stages_simps)
    moreover have "s \<in> set (stages ?es) \<longleftrightarrow> entered env w l s"
      using process_stages_entered [OF Inr, of s "?w1" f l ws] by (simp add: entered_frame)
    moreover have "prefix (stages ?es) stage_order"
      by (rule process_prefix)
    ultimately show ?thesis using Inr by simp
  qed
  then show "s \<in> set (stages ?new) \<longleftrightarrow> entered env w l s"
    and "prefix (stages ?new) stage_order"
    and "mkdtemp_result env = Inr ws \<Longrightarrow> stages ?new =
         stages (new_events (logged (Mkdtemp (workspace_prefix env)) (made ws w))
                   (snd (process env f l ws (logged (Mkdtemp (workspace_prefix env)) (made ws w)))))"
    by blast+
qed

lemma POST_translator_call:
  assumes "validated request f l"
  shows "TranslatorCall t s g \<in> set (new_events w (snd (POST env request w))) \<longleftrightarrow>
         entered env w l Translating \<and>
         (\<exists>r. asr_result env = Inr r \<and> t = transcriptText r \<and> s = src_lang (detectedLanguage r)) \<and>
         g = Some l"
proof (cases "mkdtemp_result env")
  case (Inl e)
  then have "new_events w (snd (POST env request w)) = [Mkdtemp (workspace_prefix env), ConsoleError e]"
    using POST_events [OF assms, where env = env and w = w] by simp
  moreover have "\<not> entered env w l Translating"
    using Inl by (simp add: entered.simps)
  ultimately show ?thesis by simp
next
  case (Inr ws)
  let ?w1 = "logged (Mkdtemp (workspace_prefix env)) (made ws w)"
  let ?es = "new_events ?w1 (snd (process env f l ws ?w1))"
  let ?new = "new_events w (snd (POST env request w))"
  have "?new = Mkdtemp (workspace_prefix env) # ?es @ [Rm ws] \<or>
        (\<exists>e. ?new = Mkdtemp (workspace_prefix env) # ?es @ [Rm ws, ConsoleError e])"
    using POST_events [OF assms, where env = env and w = w] Inr
    by (auto simp: Let_def split: if_splits)
  then have "TranslatorCall t s g \<in> set ?new \<longleftrightarrow> TranslatorCall t s g \<in> set ?es"
    by auto
  moreover have "isSupportedLanguage l"
    using validated_target [OF assms] by blast
  ultimately show ?thesis
    using process_translator_call [OF Inr, of t s g "?w1" f l ws]
    by (simp add: entered_frame supported_translation_lang)
qed

lemma POST_slot_kept:
  assumes "slot g w = Some p"
  shows "slot g (snd (POST env request w)) = Some p"
proof (cases "\<exists>f l. validated request f l")
  case True
  then obtain f l where v: "validated request f l" by blast
  show ?thesis
    by (simp add: POST_validated [OF v] slot_frame process_slot_kept assms split: sum.splits)
next
  case False
  show ?thesis
  proof (cases "formData request")
    case (Inl e)
    then show ?thesis by (simp add: POST_unparsed slot_frame assms)
  next
    case (Inr fd)
    then show ?thesis using POST_rejected [OF Inr] False assms by simp
  qed
qed

lemma POST_cache_inv:
  assumes "cache_inv w"
  shows "cache_inv (snd (POST env request w))"
proof (cases "\<exists>f l. validated request f l")
  case True
  then obtain f l where v: "validated request f l" by blast
  then have "isSupportedLanguage l" using validated_target by blast
  then show ?thesis
    by (simp add: POST_validated [OF v] cache_inv_frame process_cache_inv assms split: sum.splits)
next
  case False
  show ?thesis
  proof (cases "formData request")
    case (Inl e)
    then show ?thesis by (simp add: POST_unparsed cache_inv_frame assms)
  next
    case (Inr fd)
    then show ?thesis using POST_rejected [OF Inr] False assms by simp
  qed
qed

lemma rejected_blocks:
  assumes "slot g w = Some p" and "settlement p = Rejected e" and "needs g l"
  shows "\<not> run_succeeds env w l"
proof -
  have "call_getter g outcome w = (p, w)" for outcome
    using assms(1) by (rule call_getter_cached)
  then show ?thesis
    using assms(2,3) by (cases g) (auto simp: run_succeeds_def entered.simps)
qed

subsection \<open>Sequences of requests\<close>

lemma run_requests_Cons:
  "run_requests ((env, request) # rest) w =
     (fst (POST env request w) # fst (run_requests rest (snd (POST env request w))),
      snd (run_requests rest (snd (POST env request w))))"
  by (simp split: prod.splits)

lemma run_requests_slot_kept:
  "slot g w = Some p \<Longrightarrow> slot g (snd (run_requests rs w)) = Some p"
proof (induction rs arbitrary: w)
  case Nil
  then show ?case by simp
next
  case (Cons a rs)
  obtain env request where a: "a = (env, request)" by (cases a)
  have "slot g (snd (POST env request w)) = Some p"
    using Cons.prems by (rule POST_slot_kept)
  then have "slot g (snd (run_requests rs (snd (POST env request w)))) = Some p"
    by (rule Cons.IH)
  then show ?case by (simp add: a run_requests_Cons del: run_requests.simps)
qed

lemma run_requests_rejected:
  assumes "slot g w = Some p" and "settlement p = Rejected e"
    and "i < length rs" and "validated (snd (rs ! i)) f l" and "needs g l"
  shows "fst (run_requests rs w) ! i = failed_response"
  using assms(1,3,4)
proof (induction rs arbitrary: w i)
  case Nil
  then show ?case by simp
next
  case (Cons a rs)
  obtain env request where a: "a = (env, request)" by (cases a)
  show ?case
  proof (cases i)
    case 0
    then have v: "validated request f l" using Cons.prems(3) by (simp add: a)
    have "\<not> run_succeeds env w l"
      using Cons.prems(1) assms(2,5) by (rule rejected_blocks)
    then have "fst (POST env request w) = failed_response"
      using POST_validated_outcome [OF v, of env w] by simp
    then show ?thesis by (simp add: a 0 run_requests_Cons del: run_requests.simps)
  next
    case (Suc k)
    have "slot g (snd (POST env request w)) = Some p"
      using Cons.prems(1) by (rule POST_slot_kept)
    moreover have "k < length rs" "validated (snd (rs ! k)) f l"
      using Cons.prems(2,3) Suc by simp_all
    ultimately have "fst (run_requests rs (snd (POST env request w))) ! k = failed_response"
      by (rule Cons.IH)
    then show ?thesis by (simp add: a Suc run_requests_Cons del: run_requests.simps)
  qed
qed

lemma run_requests_cache_inv:
  "cache_inv w \<Longrightarrow> cache_inv (snd (run_requests rs w))"
proof (induction rs arbitrary: w)
  case Nil
  then show ?case by simp
next
  case (Cons a rs)
  obtain env request where a: "a = (env, request)" by (cases a)
  have "cache_inv (snd (POST env request w))"
    using Cons.prems by (rule POST_cache_inv)
  then have "cache_inv (snd (run_requests rs (snd (POST env request w))))"
    by (rule Cons.IH)
  then show ?case by (simp add: a run_requests_Cons del: run_requests.simps)
qed

lemma requests_construct_once:
  "distinct (constructions (snd (run_requests rs initial)))"
  using run_requests_cache_inv [OF cache_inv_initial, of rs] by (simp add: cache_inv_def)

subsection \<open>The low-pass filter\<close>

lemma length_low_pass: "length (low_pass previous xs) = length xs"
  by (induction xs arbitrary: previous) simp_all

subsection \<open>The error that is reported\<close>

lemma rejection_frame:
  "rejection (fst (getASR oc (logged ev w))) = rejection (fst (getASR oc w))"
  "rejection (fst (getASR oc (made p w))) = rejection (fst (getASR oc w))"
  "rejection (fst (getTranslator oc (logged ev w))) = rejection (fst (getTranslator oc w))"
  "rejection (fst (getTranslator oc (made p w))) = rejection (fst (getTranslator oc w))"
  "rejection (fst (getTTS l oc (logged ev w))) = rejection (fst (getTTS l oc w))"
  "rejection (fst (getTTS l oc (made p w))) = rejection (fst (getTTS l oc w))"
  by (simp_all add: rejection_def settlement_frame)

lemma unless_simps:
  "ok \<Longrightarrow> unless ok e = None"
  "\<not> ok \<Longrightarrow> unless ok e = Some e"
  by (simp_all add: unless_def)

lemma steps_thrown:
  "fst (process_steps env b l p1 p2 p3 p4 p5 p6 w) = Inl e \<longleftrightarrow> thrown env w l = Some e"
proof -
  note run = exec settlement_frame failure_def rejection_def unless_simps
  show ?thesis
    unfolding process_steps_def thrown_def
    apply (cases "writeFile_original env"; simp add: run)
    apply (cases "convertToWav_result env"; simp add: run)
    apply (cases "createInstrumental_result env"; simp add: run)
    apply (cases "settlement (fst (getASR (asr_load env) w))"; simp add: run)
    apply (cases "asr_result env"; simp add: run transcript_ok_def)
    apply (cases "settlement (fst (getTranslator (translator_load env) w))"; simp add: run)
    apply (cases "translator_result env"; simp add: run translation_ok_def)
    apply (cases "settlement (fst (getTTS l (tts_load env) w))"; simp add: run)
    apply (cases "tts_result env"; simp add: run)
    apply (cases "encode_result env"; simp add: run)
    apply (cases "writeFile_voice env"; simp add: run)
    apply (cases "normalizeVoice_result env"; simp add: run)
    apply (cases "mixTracks_result env"; simp add: run)
    apply (cases "readFile_result env"; simp add: run)
    done
qed

lemma steps_no_console:
  "ConsoleError e \<notin> set (new_events w (snd (process_steps env b l p1 p2 p3 p4 p5 p6 w)))"
  unfolding process_steps_def new_events_def
  by (simp add: exec getter_frame logged_fields split: sum.split Settlement.split)

lemma process_thrown:
  "fst (process env f l ws w) = Inl e \<longleftrightarrow> thrown env w l = Some e"
  unfolding process_def Let_def by (rule steps_thrown)

lemma process_no_console:
  "ConsoleError e \<notin> set (new_events w (snd (process env f l ws w)))"
  unfolding process_def Let_def by (rule steps_no_console)

lemma thrown_frame:
  "thrown env (logged ev w) l = thrown env w l"
  "thrown env (made p w) l = thrown env w l"
  by (simp_all add: thrown_def rejection_frame)

lemma reported_None:
  "reported env w l = None \<longleftrightarrow> run_succeeds env w l"
proof (cases "mkdtemp_result env")
  case (Inl e)
  then show ?thesis by (simp add: reported_def run_succeeds_def entered.simps)
next
  case (Inr ws)
  have "thrown env w l = None \<longleftrightarrow> \<not> isl (fst (process env talk l ws w))"
  proof (cases "fst (process env talk l ws w)")
    case (Inl e)
    then have "thrown env w l = Some e" by (simp add: process_thrown)
    then show ?thesis using Inl by simp
  next
    case (Inr r)
    have "thrown env w l \<noteq> Some e" for e
      using Inr process_thrown [of env talk l ws w e] by simp
    then have "thrown env w l = None" by (cases "thrown env w l") auto
    then show ?thesis using Inr by simp
  qed
  then have "thrown env w l = None \<longleftrightarrow>
      entered env w l Mixing \<and> \<not> isl (mixTracks_result env) \<and> \<not> isl (readFile_result env)"
    using process_succeeds [OF Inr, of talk l ws w] by simp
  then show ?thesis
    using Inr by (cases "rm_result env") (simp_all add: reported_def run_succeeds_def)
qed

lemma POST_reported:
  assumes "validated request f l" and "reported env w l = Some e"
  shows "fst (POST env request w) = failed_response \<and>
         (\<exists>es. new_events w (snd (POST env request w)) = es @ [ConsoleError e] \<and>
               (\<forall>e'. ConsoleError e' \<notin> set es))"
proof (cases "mkdtemp_result env")
  case (Inl e')
  then have "e' = e" using assms(2) by (simp add: reported_def)
  then have "new_events w (snd (POST env request w)) = [Mkdtemp (workspace_prefix env)] @ [ConsoleError e]"
    and "fst (POST env request w) = failed_response"
    using POST_events [OF assms(1), where env = env and w = w] Inl by simp_all
  moreover have "\<forall>e'. ConsoleError e' \<notin> set [Mkdtemp (workspace_prefix env)]" by simp
  ultimately show ?thesis by blast
next
  case (Inr ws)
  let ?w1 = "logged (Mkdtemp (workspace_prefix env)) (made ws w)"
  let ?es = "new_events ?w1 (snd (process env f l ws ?w1))"
  have "\<not> run_succeeds env w l"
    using assms(2) reported_None [of env w l] by simp
  then obtain e' where ev: "new_events w (snd (POST env request w)) =
        (Mkdtemp (workspace_prefix env) # ?es @ [Rm ws]) @ [ConsoleError e']"
      and rm: "isl (rm_result env) \<longrightarrow> rm_result env = Inl e'"
      and pr: "\<not> isl (rm_result env) \<longrightarrow> fst (process env f l ws ?w1) = Inl e'"
      and r: "fst (POST env request w) = failed_response"
    using POST_events [OF assms(1), where env = env and w = w] Inr by (auto simp: Let_def)
  have "e' = e"
  proof (cases "rm_result env")
    case (Inl x)
    then show ?thesis using rm assms(2) Inr by (simp add: reported_def)
  next
    case r2: (Inr u)
    then have "thrown env w l = Some e'"
      using pr process_thrown [of env f l ws "?w1" e'] by (simp add: thrown_frame)
    then show ?thesis using assms(2) Inr r2 by (simp add: reported_def)
  qed
  moreover have "\<forall>e''. ConsoleError e'' \<notin> set (Mkdtemp (workspace_prefix env) # ?es @ [Rm ws])"
    using process_no_console [of _ "?w1" env f l ws] by simp
  ultimately show ?thesis using ev r by blast
qed

lemma call_getter_first:
  "slot g w = None \<Longrightarrow> fst (call_getter g outcome w) = Promise (length (constructions w)) outcome"
  by (cases g) (simp_all add: getASR_def getTranslator_def getTTS_def pipeline_def)
section \<open>The claims\<close>

subsection \<open>Validation of the target language\<close>

text \<open>
  Claim C1, as amended. When the form has a \<open>targetLanguage\<close> field whose value is not one of
  the six supported strings (another string, or a file), the handler answers 400 and the
  world is unchanged: no directory, no pipeline construction, no call recorded. When the
  field is absent the handler runs exactly as if the form had asked for \<open>es\<close>.
\<close>

theorem unsupported_target_rejected:
  assumes "formData request = Inr fd"
  shows "case form_get fd ''targetLanguage'' of
           Some v \<Rightarrow>
             v \<notin> StringValue ` {l. isSupportedLanguage l} \<longrightarrow>
               status (fst (POST env request w)) = 400 \<and> snd (POST env request w) = w
         | None \<Rightarrow>
             POST env request w =
             POST env \<lparr>formData = Inr (fd @ [(''targetLanguage'', StringValue ''es'')])\<rparr> w"
proof (cases "form_get fd ''targetLanguage''")
  case None
  then have "form_get (fd @ [(''targetLanguage'', StringValue ''es'')]) ''targetLanguage'' =
             Some (StringValue ''es'')"
    by (simp add: form_get_def map_add_def)
  moreover have "form_get (fd @ [(''targetLanguage'', StringValue ''es'')]) ''audio'' =
                 form_get fd ''audio''"
    by (simp add: form_get_def map_add_def split: option.splits)
  ultimately show ?thesis
    using None
    by (simp add: POST_def handle_def andThen_def assms
             split: option.splits FormDataEntryValue.splits)
next
  case (Some v)
  have "\<not> validated request f l" if "v \<notin> StringValue ` {l. isSupportedLanguage l}" for f l
    using that Some by (auto simp: validated_def assms)
  then have "v \<notin> StringValue ` {l. isSupportedLanguage l} \<Longrightarrow>
      POST env request w = (missing_audio_response, w) \<or>
      POST env request w = (unsupported_language_response, w)"
    using POST_not_validated [OF assms] by blast
  then show ?thesis
    using Some by (auto simp: missing_audio_response_def unsupported_language_response_def)
qed

theorem unsupported_target_rejected_witness:
  "formData request_zz = Inr [(''audio'', FileValue talk), (''targetLanguage'', StringValue ''zz'')] \<and>
   StringValue ''zz'' \<notin> StringValue ` {l. isSupportedLanguage l} \<and>
   status (fst (POST env_ok request_zz initial)) = 400 \<and>
   snd (POST env_ok request_zz initial) = initial"
proof -
  have f: "formData request_zz = Inr [(''audio'', FileValue talk), (''targetLanguage'', StringValue ''zz'')]"
    by (simp add: request_zz_def)
  have u: "StringValue ''zz'' \<notin> StringValue ` {l. isSupportedLanguage l}"
    by (auto simp: isSupportedLanguage_def TTS_MODEL_def)
  show ?thesis
    using unsupported_target_rejected [OF f, of env_ok initial] f u
    by (simp add: form_get_def)
qed

text \<open>
  Against C1 as stated: a form without the field is not rejected. The run succeeds, after
  creating the workspace and calling the speech recogniser.
\<close>

theorem absent_target_is_processed:
  "formData request_default = Inr [(''audio'', FileValue talk)] \<and>
   form_get [(''audio'', FileValue talk)] ''targetLanguage'' = None \<and>
   status (fst (POST env_ok request_default initial)) = 200 \<and>
   trace (snd (POST env_ok request_default initial)) ! 0 = Mkdtemp ''/tmp/audio-transform-'' \<and>
   trace (snd (POST env_ok request_default initial)) ! 4 = AsrCall ''/tmp/audio-transform-abc/original.wav''"
  by code_simp

subsection \<open>The workspace is removed\<close>

text \<open>
  Claim C2, as amended. Once validation has passed and \<open>mkdtemp\<close> has created the directory,
  \<open>rm\<close> is called on it exactly once on every path, and when that removal succeeds the
  directory does not exist after the handler returns.
\<close>

theorem workspace_removed:
  assumes "validated request f l" and "mkdtemp_result env = Inr ws"
  shows "length (filter (\<lambda>ev. ev = Rm ws) (new_events w (snd (POST env request w)))) = 1 \<and>
         (rm_result env = Inr () \<longrightarrow> ws \<notin> dirs (snd (POST env request w)))"
proof -
  let ?w1 = "logged (Mkdtemp (workspace_prefix env)) (made ws w)"
  let ?w2 = "snd (process env f l ws ?w1)"
  let ?es = "new_events ?w1 ?w2"
  have tr: "trace ?w2 = trace w @ Mkdtemp (workspace_prefix env) # ?es"
    using process_trace [of env f l ws "?w1"] by (simp add: logged_fields made_fields)
  have no: "filter (\<lambda>ev. ev = Rm ws) ?es = []"
    using process_no_rm [of ws "?w1" env f l] by (auto simp: filter_empty_conv)
  show ?thesis
  proof (cases "rm_result env")
    case (Inl e)
    have "new_events w (snd (POST env request w)) =
          Mkdtemp (workspace_prefix env) # ?es @ [Rm ws, ConsoleError e]"
      by (rule new_events_append)
         (simp add: POST_validated [OF assms(1)] assms(2) Inl logged_fields tr)
    then show ?thesis using no Inl by simp
  next
    case (Inr u)
    show ?thesis
    proof (cases "fst (process env f l ws ?w1)")
      case (Inl e)
      have "new_events w (snd (POST env request w)) =
            Mkdtemp (workspace_prefix env) # ?es @ [Rm ws, ConsoleError e]"
        by (rule new_events_append)
           (simp add: POST_validated [OF assms(1)] assms(2) Inl Inr logged_fields removed_fields tr)
      moreover have "ws \<notin> dirs (snd (POST env request w))"
        by (simp add: POST_validated [OF assms(1)] assms(2) Inl Inr logged_fields removed_fields)
      ultimately show ?thesis using no by simp
    next
      case (Inr response)
      have "new_events w (snd (POST env request w)) =
            Mkdtemp (workspace_prefix env) # ?es @ [Rm ws]"
        by (rule new_events_append)
           (simp add: POST_validated [OF assms(1)] assms(2) Inr \<open>rm_result env = Inr u\<close>
              logged_fields removed_fields tr)
      moreover have "ws \<notin> dirs (snd (POST env request w))"
        by (simp add: POST_validated [OF assms(1)] assms(2) Inr \<open>rm_result env = Inr u\<close>
              logged_fields removed_fields)
      ultimately show ?thesis using no by simp
    qed
  qed
qed

theorem workspace_removed_witness:
  "validated request_default talk ''es'' \<and>
   mkdtemp_result env_ok = Inr ''/tmp/audio-transform-abc'' \<and>
   rm_result env_ok = Inr () \<and>
   length (filter (\<lambda>ev. ev = Rm ''/tmp/audio-transform-abc'')
             (new_events initial (snd (POST env_ok request_default initial)))) = 1 \<and>
   ''/tmp/audio-transform-abc'' \<notin> dirs (snd (POST env_ok request_default initial))"
proof -
  have v: "validated request_default talk ''es''" by code_simp
  have m: "mkdtemp_result env_ok = Inr ''/tmp/audio-transform-abc''" by (simp add: env_ok_def)
  have r: "rm_result env_ok = Inr ()" by (simp add: env_ok_def)
  show ?thesis using workspace_removed [OF v m, of initial] v m r by simp
qed

text \<open>
  Against C2 as stated: when the removal itself fails, the directory is still there after
  the handler has returned.
\<close>

theorem workspace_left_when_rm_fails:
  "validated request_default talk ''es'' \<and>
   mkdtemp_result env_rm_fails = Inr ''/tmp/audio-transform-abc'' \<and>
   ''/tmp/audio-transform-abc'' \<in> dirs (snd (POST env_rm_fails request_default initial))"
  by code_simp

subsection \<open>A failing cleanup\<close>

text \<open>
  Claim C3, as amended. When the run would have returned its success response had the
  removal of the workspace worked, and the removal fails with an error, the handler returns
  the generic 500 response instead; the removal error is the one passed to
  \<open>console.error\<close>, right after the call of \<open>rm\<close>.
\<close>

theorem cleanup_failure_escalates:
  assumes "status (fst (POST (env\<lparr>rm_result := Inr ()\<rparr>) request w)) = 200"
    and "rm_result env = Inl e"
  shows "fst (POST env request w) = failed_response \<and>
         (\<exists>es ws. mkdtemp_result env = Inr ws \<and>
                  new_events w (snd (POST env request w)) = es @ [Rm ws, ConsoleError e])"
proof -
  obtain f l where v: "validated request f l"
    using assms(1) by (rule success_is_validated)
  let ?env = "env\<lparr>rm_result := Inr ()\<rparr>"
  obtain ws where m: "mkdtemp_result env = Inr ws"
  proof (cases "mkdtemp_result env")
    case (Inl e')
    then have "fst (POST ?env request w) = failed_response"
      using POST_events [OF v, where env = "?env" and w = w] by simp
    then show ?thesis using assms(1) by (simp add: status_simps)
  next
    case (Inr ws)
    then show ?thesis using that by blast
  qed
  let ?w1 = "logged (Mkdtemp (workspace_prefix env)) (made ws w)"
  have "\<not> run_succeeds env w l"
    using assms(2) by (simp add: run_succeeds_def)
  then obtain e' where ev: "new_events w (snd (POST env request w)) =
        Mkdtemp (workspace_prefix env) # new_events ?w1 (snd (process env f l ws ?w1)) @ [Rm ws, ConsoleError e']"
      and e': "isl (rm_result env) \<longrightarrow> rm_result env = Inl e'"
      and r: "fst (POST env request w) = failed_response"
    using POST_events [OF v, where env = env and w = w] m by (auto simp: Let_def)
  have "e' = e" using e' assms(2) by simp
  then have "new_events w (snd (POST env request w)) =
        (Mkdtemp (workspace_prefix env) # new_events ?w1 (snd (process env f l ws ?w1))) @ [Rm ws, ConsoleError e]"
    using ev by simp
  then show ?thesis using r m by blast
qed

theorem cleanup_failure_escalates_witness:
  "status (fst (POST (env_rm_fails\<lparr>rm_result := Inr ()\<rparr>) request_default initial)) = 200 \<and>
   rm_result env_rm_fails = Inl (Error ''EBUSY'') \<and>
   fst (POST env_rm_fails request_default initial) = failed_response \<and>
   (\<exists>es ws. mkdtemp_result env_rm_fails = Inr ws \<and>
      new_events initial (snd (POST env_rm_fails request_default initial)) =
        es @ [Rm ws, ConsoleError (Error ''EBUSY'')])"
proof -
  have a: "status (fst (POST (env_rm_fails\<lparr>rm_result := Inr ()\<rparr>) request_default initial)) = 200"
    by code_simp
  have b: "rm_result env_rm_fails = Inl (Error ''EBUSY'')"
    by (simp add: env_rm_fails_def)
  show ?thesis
    using cleanup_failure_escalates [OF a b] a b by simp
qed

text \<open>
  Against C3 as stated: the stages succeed and the success response is what the same run
  returns with a working \<open>rm\<close>; with the failing \<open>rm\<close> the caller gets the 500 response.
\<close>

theorem success_lost_when_rm_fails:
  "fst (POST (env_rm_fails\<lparr>rm_result := Inr ()\<rparr>) request_default initial) = success_response [7, 8, 9] \<and>
   rm_result env_rm_fails = Inl (Error ''EBUSY'') \<and>
   fst (POST env_rm_fails request_default initial) = failed_response \<and>
   status (fst (POST env_rm_fails request_default initial)) = 500"
  by code_simp

subsection \<open>Each model is constructed once\<close>

text \<open>
  Claim C4. In every sequence of getter calls made from the freshly loaded module, with
  \<open>getTTS\<close> called at supported languages, \<open>pipeline\<close> is called exactly once for each model
  that some getter asked for and never twice for the same model, and any two calls of the
  same getter (for \<open>getTTS\<close>, at the same language) return the same promise. Likewise, over
  every sequence of requests handled from the freshly loaded module, no model is
  constructed twice.
\<close>

theorem getters_construct_once:
  assumes "\<forall>g \<in> fst ` set cs. well_typed g"
  shows "distinct (constructions (snd (call_getters cs initial))) \<and>
         set (constructions (snd (call_getters cs initial))) = model_of ` fst ` set cs \<and>
         (\<forall>i < length cs. \<forall>j < length cs. fst (cs ! i) = fst (cs ! j) \<longrightarrow>
            fst (call_getters cs initial) ! i = fst (call_getters cs initial) ! j) \<and>
         distinct (constructions (snd (run_requests rs initial)))"
proof (intro conjI allI impI)
  show "distinct (constructions (snd (run_requests rs initial)))"
    by (rule requests_construct_once)
next
  have "cache_inv (snd (call_getters cs initial))"
    using cache_inv_initial assms by (rule cache_inv_all)
  then show "distinct (constructions (snd (call_getters cs initial)))"
    by (simp add: cache_inv_def)
next
  have "set (constructions (snd (call_getters cs initial))) =
        set (constructions initial) \<union> model_of ` fst ` set cs"
    using cache_inv_initial assms by (rule constructions_all)
  then show "set (constructions (snd (call_getters cs initial))) = model_of ` fst ` set cs"
    by (simp add: initial_def)
next
  fix i j
  assume i: "i < length cs" and j: "j < length cs" and same: "fst (cs ! i) = fst (cs ! j)"
  have "slot (fst (cs ! i)) (snd (call_getters cs initial)) = Some (fst (call_getters cs initial) ! i)"
    using i by (rule returned_is_cached)
  moreover have "slot (fst (cs ! j)) (snd (call_getters cs initial)) = Some (fst (call_getters cs initial) ! j)"
    using j by (rule returned_is_cached)
  ultimately show "fst (call_getters cs initial) ! i = fst (call_getters cs initial) ! j"
    using same by simp
qed

theorem getters_construct_once_witness:
  "list_all well_typed (map fst five_calls) \<and>
   constructions (snd (call_getters five_calls initial)) =
     [(''automatic-speech-recognition'', Some ''Xenova/whisper-small''),
      (''text-to-speech'', Some ''Xenova/mms-tts-es''),
      (''translation'', Some ''Xenova/m2m100_418M'')] \<and>
   distinct (constructions (snd (call_getters five_calls initial))) \<and>
   fst (call_getters five_calls initial) ! 1 = fst (call_getters five_calls initial) ! 4 \<and>
   constructions (snd (run_requests [(env_ok, request_default), (env_ok, request_default)] initial)) =
     [(''automatic-speech-recognition'', Some ''Xenova/whisper-small''),
      (''translation'', Some ''Xenova/m2m100_418M''),
      (''text-to-speech'', Some ''Xenova/mms-tts-es'')]"
proof -
  have h: "\<forall>g \<in> fst ` set five_calls. well_typed g"
    by (simp add: five_calls_def isSupportedLanguage_def TTS_MODEL_def)
  have c: "constructions (snd (call_getters five_calls initial)) =
     [(''automatic-speech-recognition'', Some ''Xenova/whisper-small''),
      (''text-to-speech'', Some ''Xenova/mms-tts-es''),
      (''translation'', Some ''Xenova/m2m100_418M'')]"
    by code_simp
  have r: "constructions (snd (run_requests [(env_ok, request_default), (env_ok, request_default)] initial)) =
     [(''automatic-speech-recognition'', Some ''Xenova/whisper-small''),
      (''translation'', Some ''Xenova/m2m100_418M''),
      (''text-to-speech'', Some ''Xenova/mms-tts-es'')]"
    by code_simp
  have "fst (five_calls ! 1) = fst (five_calls ! 4)" by (simp add: five_calls_def)
  moreover have "1 < length five_calls" "4 < length five_calls" by (simp_all add: five_calls_def)
  moreover have "list_all well_typed (map fst five_calls)"
    by (simp add: five_calls_def isSupportedLanguage_def TTS_MODEL_def)
  ultimately show ?thesis using c r getters_construct_once [OF h] by blast
qed

subsection \<open>Empty text from a collaborator\<close>



subsection \<open>Source and target language of the translation\<close>

text \<open>
  Claim C6, as amended. Every call of the translator made for a request has as source
  language the detected language when it is a supported one, and \<open>en\<close> when it is absent or
  not supported; its target language is the string of the form's \<open>targetLanguage\<close> field,
  which is then a supported one, or \<open>es\<close> when the form has no such field. The detected
  language never stops a run: whenever the translation stage is entered, the translator is
  called with these arguments.
\<close>

theorem translator_languages:
  "(\<forall>t s g. TranslatorCall t s g \<in> set (new_events w (snd (POST env request w))) \<longrightarrow>
      (\<exists>r fd. asr_result env = Inr r \<and> formData request = Inr fd \<and> t = transcriptText r \<and>
         s = (case detectedLanguage r of
                None \<Rightarrow> Some ''en''
              | Some d \<Rightarrow> if isSupportedLanguage d then Some d else Some ''en'') \<and>
         (case form_get fd ''targetLanguage'' of
            None \<Rightarrow> g = Some ''es''
          | Some v \<Rightarrow> \<exists>l. v = StringValue l \<and> isSupportedLanguage l \<and> g = Some l))) \<and>
   (\<forall>f l r. validated request f l \<and> entered env w l Translating \<and> asr_result env = Inr r \<longrightarrow>
      TranslatorCall (transcriptText r) (src_lang (detectedLanguage r)) (Some l)
        \<in> set (new_events w (snd (POST env request w))))"
proof (intro conjI allI impI)
  fix t s g
  assume c: "TranslatorCall t s g \<in> set (new_events w (snd (POST env request w)))"
  have "\<exists>f l. validated request f l"
  proof (rule ccontr)
    assume n: "\<nexists>f l. validated request f l"
    show False
    proof (cases "formData request")
      case (Inl e)
      then show ?thesis using c by (simp add: POST_unparsed new_events_logged)
    next
      case (Inr fd)
      then have "snd (POST env request w) = w"
        using POST_rejected [OF Inr] n by simp
      then show ?thesis using c by (simp add: new_events_self)
    qed
  qed
  then obtain f l where v: "validated request f l" by blast
  obtain fd where fd: "formData request = Inr fd" "isSupportedLanguage l"
      "case form_get fd ''targetLanguage'' of None \<Rightarrow> l = ''es'' | Some v \<Rightarrow> v = StringValue l"
    using validated_target [OF v] by blast
  obtain r where r: "asr_result env = Inr r" "t = transcriptText r"
      "s = src_lang (detectedLanguage r)" and g: "g = Some l"
    using c POST_translator_call [OF v, of t s g w env] by blast
  have "case form_get fd ''targetLanguage'' of
            None \<Rightarrow> g = Some ''es''
          | Some v \<Rightarrow> \<exists>l. v = StringValue l \<and> isSupportedLanguage l \<and> g = Some l"
    using fd g by (auto split: option.splits)
  then show "\<exists>r fd. asr_result env = Inr r \<and> formData request = Inr fd \<and> t = transcriptText r \<and>
         s = (case detectedLanguage r of
                None \<Rightarrow> Some ''en''
              | Some d \<Rightarrow> if isSupportedLanguage d then Some d else Some ''en'') \<and>
         (case form_get fd ''targetLanguage'' of
            None \<Rightarrow> g = Some ''es''
          | Some v \<Rightarrow> \<exists>l. v = StringValue l \<and> isSupportedLanguage l \<and> g = Some l)"
    using r fd(1) src_lang_cases [of "detectedLanguage r"] by auto
next
  fix f l r
  assume "validated request f l \<and> entered env w l Translating \<and> asr_result env = Inr r"
  then show "TranslatorCall (transcriptText r) (src_lang (detectedLanguage r)) (Some l)
        \<in> set (new_events w (snd (POST env request w)))"
    using POST_translator_call [of request f l "transcriptText r" "src_lang (detectedLanguage r)" "Some l" w env]
    by simp
qed

theorem translator_languages_witness:
  "validated request_default talk ''es'' \<and> entered env_ok initial ''es'' Translating \<and>
   asr_result env_ok = Inr (AsrObject (Some ''hello'') None) \<and>
   detectedLanguage (AsrObject (Some ''hello'') None) = None \<and>
   TranslatorCall ''hello'' (Some ''en'') (Some ''es'')
     \<in> set (new_events initial (snd (POST env_ok request_default initial)))"
proof -
  have v: "validated request_default talk ''es''" by code_simp
  have e: "entered env_ok initial ''es'' Translating" by code_simp
  have a: "asr_result env_ok = Inr (AsrObject (Some ''hello'') None)" by (simp add: env_ok_def)
  have d: "detectedLanguage (AsrObject (Some ''hello'') None) = None"
    by (simp add: detectedLanguage_def)
  have "TranslatorCall (transcriptText (AsrObject (Some ''hello'') None))
          (src_lang (detectedLanguage (AsrObject (Some ''hello'') None))) (Some ''es'')
        \<in> set (new_events initial (snd (POST env_ok request_default initial)))"
    using translator_languages [of initial env_ok request_default] v e a by blast
  moreover have "transcriptText (AsrObject (Some ''hello'') None) = ''hello''"
    by (simp add: transcriptText_def)
  moreover have "src_lang (detectedLanguage (AsrObject (Some ''hello'') None)) = Some ''en''"
    by (simp add: src_lang_cases d)
  ultimately show ?thesis using v e a d by simp
qed

text \<open>
  Against C6 as stated: the target language is defaulted too, when the form has no
  \<open>targetLanguage\<close> field; the translator is then called with target \<open>es\<close>.
\<close>

theorem absent_target_defaults_to_es:
  "form_get [(''audio'', FileValue talk)] ''targetLanguage'' = None \<and>
   formData request_default = Inr [(''audio'', FileValue talk)] \<and>
   TranslatorCall ''hello'' (Some ''en'') (Some ''es'')
     \<in> set (trace (snd (POST env_ok request_default initial))) \<and>
   status (fst (POST env_ok request_default initial)) = 200"
  by code_simp

subsection \<open>What the caller is told\<close>

text \<open>
  Claim C7, as amended. For a validated request, when some step fails the response is the
  fixed text \<open>Failed to process audio\<close> with status 500, whatever the error, and exactly one
  error is passed to \<open>console.error\<close>, as the last call of the run: the error of \<open>mkdtemp\<close>,
  else the error of \<open>rm\<close> when the cleanup fails, else the error thrown by the first
  failing step. When no step fails the response is the success response with status 200.
  A request that does not pass validation gets status 400 with one of the two specific
  messages and nothing else happens, or, when the form itself cannot be read, the same
  generic 500 response with that error logged.
\<close>

theorem failures_are_generic:
  "(validated request f l \<longrightarrow>
      (case reported env w l of
         None \<Rightarrow>
           \<exists>out. readFile_result env = Inr out \<and>
                 fst (POST env request w) = success_response out \<and>
                 status (fst (POST env request w)) = 200 \<and>
                 body (fst (POST env request w)) = BinaryBody out
       | Some e \<Rightarrow>
           fst (POST env request w) =
             \<lparr> body = TextBody ''Failed to process audio'', status = 500, headers = [] \<rparr> \<and>
           (\<exists>es. new_events w (snd (POST env request w)) = es @ [ConsoleError e] \<and>
                 (\<forall>e'. ConsoleError e' \<notin> set es)))) \<and>
   ((\<forall>f l. \<not> validated request f l) \<longrightarrow>
      (case formData request of
         Inl e \<Rightarrow>
           POST env request w =
             (\<lparr> body = TextBody ''Failed to process audio'', status = 500, headers = [] \<rparr>,
              logged (ConsoleError e) w)
       | Inr fd \<Rightarrow>
           POST env request w =
             (\<lparr> body = TextBody (if \<exists>f. form_get fd ''audio'' = Some (FileValue f)
                                  then ''Unsupported target language''
                                  else ''Missing audio file payload''),
                status = 400, headers = [] \<rparr>, w)))"
proof (intro conjI impI)
  assume v: "validated request f l"
  show "case reported env w l of
         None \<Rightarrow>
           \<exists>out. readFile_result env = Inr out \<and>
                 fst (POST env request w) = success_response out \<and>
                 status (fst (POST env request w)) = 200 \<and>
                 body (fst (POST env request w)) = BinaryBody out
       | Some e \<Rightarrow>
           fst (POST env request w) =
             \<lparr> body = TextBody ''Failed to process audio'', status = 500, headers = [] \<rparr> \<and>
           (\<exists>es. new_events w (snd (POST env request w)) = es @ [ConsoleError e] \<and>
                 (\<forall>e'. ConsoleError e' \<notin> set es))"
  proof (cases "reported env w l")
    case None
    then have "run_succeeds env w l" by (simp add: reported_None)
    then obtain out where "readFile_result env = Inr out"
        "fst (POST env request w) = success_response out"
      using POST_validated_outcome [OF v, of env w] by auto
    then show ?thesis using None by (auto simp: success_response_def)
  next
    case (Some e)
    then show ?thesis
      using POST_reported [OF v Some] by (simp add: failed_response_def)
  qed
next
  assume n: "\<forall>f l. \<not> validated request f l"
  show "case formData request of
         Inl e \<Rightarrow>
           POST env request w =
             (\<lparr> body = TextBody ''Failed to process audio'', status = 500, headers = [] \<rparr>,
              logged (ConsoleError e) w)
       | Inr fd \<Rightarrow>
           POST env request w =
             (\<lparr> body = TextBody (if \<exists>f. form_get fd ''audio'' = Some (FileValue f)
                                  then ''Unsupported target language''
                                  else ''Missing audio file payload''),
                status = 400, headers = [] \<rparr>, w)"
  proof (cases "formData request")
    case (Inl e)
    then show ?thesis by (simp add: POST_unparsed failed_response_def)
  next
    case (Inr fd)
    then show ?thesis
      using POST_rejected [OF Inr] n
      by (simp add: unsupported_language_response_def missing_audio_response_def)
  qed
qed

theorem failures_are_generic_witness:
  "validated request_default talk ''es'' \<and>
   reported env_convert_fails initial ''es'' = Some (Error ''ffmpeg exited with code 1'') \<and>
   fst (POST env_convert_fails request_default initial) =
     \<lparr> body = TextBody ''Failed to process audio'', status = 500, headers = [] \<rparr> \<and>
   (\<exists>es. new_events initial (snd (POST env_convert_fails request_default initial)) =
           es @ [ConsoleError (Error ''ffmpeg exited with code 1'')] \<and>
         (\<forall>e'. ConsoleError e' \<notin> set es))"
proof -
  have v: "validated request_default talk ''es''" by code_simp
  have r: "reported env_convert_fails initial ''es'' = Some (Error ''ffmpeg exited with code 1'')"
    by code_simp
  show ?thesis
    using failures_are_generic [of request_default talk "''es''" env_convert_fails initial] v r
    by simp
qed

text \<open>
  Against C7 as stated: when the conversion fails and the cleanup fails as well, the error
  of the conversion is written nowhere; only the error of \<open>rm\<close> is logged.
\<close>

theorem stage_error_lost_when_rm_fails:
  "validated request_default talk ''es'' \<and>
   convertToWav_result env_both_fail = Inl (Error ''ffmpeg exited with code 1'') \<and>
   ConvertToWav ''/tmp/audio-transform-abc/original.mp3'' ''/tmp/audio-transform-abc/original.wav''
     \<in> set (trace (snd (POST env_both_fail request_default initial))) \<and>
   status (fst (POST env_both_fail request_default initial)) = 500 \<and>
   ConsoleError (Error ''ffmpeg exited with code 1'')
     \<notin> set (trace (snd (POST env_both_fail request_default initial))) \<and>
   last (trace (snd (POST env_both_fail request_default initial))) = ConsoleError (Error ''EBUSY'')"
  by code_simp

subsection \<open>The order of the stages\<close>

text \<open>
  Claim C8. In every run the stages entered are an initial part of the sequence
  normalizing, separating, transcribing, translating, synthesizing, post-processing,
  mixing, in that order; a run that returns the success response has entered all seven;
  and for a validated request a stage is entered exactly when everything before it has
  succeeded, so that mixing starts only after both the instrumental and the voice branch are
  complete and no stage is entered after a failure.
\<close>

theorem stages_in_order:
  "prefix (stages (new_events w (snd (POST env request w)))) stage_order \<and>
   (status (fst (POST env request w)) = 200 \<longrightarrow>
      stages (new_events w (snd (POST env request w))) = stage_order) \<and>
   (validated request f l \<longrightarrow>
      (\<forall>s. s \<in> set (stages (new_events w (snd (POST env request w)))) \<longleftrightarrow> entered env w l s))"
proof (intro conjI impI allI)
  let ?new = "new_events w (snd (POST env request w))"
  show p: "prefix (stages ?new) stage_order"
  proof (cases "\<exists>f l. validated request f l")
    case True
    then show ?thesis using POST_stages(2) by blast
  next
    case False
    show ?thesis
    proof (cases "formData request")
      case (Inl e)
      then show ?thesis by (simp add: POST_unparsed new_events_logged stages_simps)
    next
      case (Inr fd)
      then have "snd (POST env request w) = w"
        using POST_rejected [OF Inr] False by simp
      then show ?thesis by (simp add: new_events_self stages_simps)
    qed
  qed
  show "stages ?new = stage_order" if ok: "status (fst (POST env request w)) = 200"
  proof -
    obtain f' l' where v: "validated request f' l'"
      using ok by (rule success_is_validated)
    have "run_succeeds env w l'"
      using POST_validated_outcome [OF v, of env w] ok
      by (auto simp: status_simps split: if_splits)
    then have "entered env w l' Mixing" by (simp add: run_succeeds_def)
    then have "Mixing \<in> set (stages ?new)"
      using POST_stages(1) [OF v] by blast
    with p show ?thesis by (rule prefix_with_last_stage)
  qed
  show "s \<in> set (stages ?new) \<longleftrightarrow> entered env w l s" if "validated request f l" for s
    using that by (rule POST_stages(1))
qed

theorem stages_in_order_witness:
  "status (fst (POST env_ok request_default initial)) = 200 \<and>
   validated request_default talk ''es'' \<and>
   stages (new_events initial (snd (POST env_ok request_default initial))) =
     [Normalizing, Separating, Transcribing, Translating, Synthesizing, PostProcessingVoice, Mixing] \<and>
   entered env_ok initial ''es'' Mixing \<and>
   \<not> entered env_convert_fails initial ''es'' Separating \<and>
   Separating \<notin> set (stages (new_events initial (snd (POST env_convert_fails request_default initial))))"
proof -
  have a: "status (fst (POST env_ok request_default initial)) = 200" by code_simp
  have v: "validated request_default talk ''es''" by code_simp
  have n: "\<not> entered env_convert_fails initial ''es'' Separating" by code_simp
  have "stages (new_events initial (snd (POST env_ok request_default initial))) = stage_order"
    using stages_in_order [of initial env_ok request_default talk "''es''"] a by blast
  moreover have "Separating \<notin> set (stages (new_events initial (snd (POST env_convert_fails request_default initial))))"
    using stages_in_order [of initial env_convert_fails request_default talk "''es''"] v n by blast
  moreover have "Mixing \<in> set (stages (new_events initial (snd (POST env_ok request_default initial))))"
    using calculation(1) by (simp add: stage_order_def)
  then have "entered env_ok initial ''es'' Mixing"
    using stages_in_order [of initial env_ok request_default talk "''es''"] v by blast
  ultimately show ?thesis using a v n by (simp add: stage_order_def)
qed

subsection \<open>The separator keeps the shape of the audio\<close>

text \<open>
  Claim C9, on the separator modelled from the specification. For every valid buffer the
  separator returns a buffer with the same sample rate, the same channel count and
  channels of the same lengths, which is again valid.
\<close>

theorem separator_preserves_shape:
  assumes "valid_buffer b"
  shows "\<exists>b'. separateInstrumental b = Inr b' \<and>
              sampleRate b' = sampleRate b \<and>
              channelCount b' = channelCount b \<and>
              map length (channels b') = map length (channels b) \<and>
              valid_buffer b'"
proof -
  have len: "length (channels b) = channelCount b"
    and count: "channelCount b = 1 \<or> channelCount b = 2"
    and equal: "list_all (\<lambda>c. list_all (\<lambda>c'. length c = length c') (channels b)) (channels b)"
    using assms by (simp_all add: valid_buffer_def)
  from count show ?thesis
  proof
    assume one: "channelCount b = 1"
    then obtain single where "channels b = [single]"
      using len by (auto simp: length_Suc_conv)
    then show ?thesis
      using one by (simp add: separateInstrumental_def valid_buffer_def length_low_pass)
  next
    assume two: "channelCount b = 2"
    then obtain left right where c: "channels b = [left, right]"
      using len by (auto simp: numeral_2_eq_2 length_Suc_conv)
    have same: "length right = length left"
      using equal unfolding c list.pred_inject by blast
    have sep: "separateInstrumental b =
                 Inr (b\<lparr>channels := [map2 (-) left right, map2 (-) right left]\<rparr>)"
      by (simp add: separateInstrumental_def c two same)
    have "valid_buffer (b\<lparr>channels := [map2 (-) left right, map2 (-) right left]\<rparr>)"
      by (simp add: valid_buffer_def two same)
    moreover have "map length [map2 (-) left right, map2 (-) right left] = map length [left, right]"
      by (simp add: same)
    ultimately show ?thesis
      by (simp add: sep c)
  qed
qed

theorem separator_preserves_shape_witness:
  "valid_buffer two_second_stereo \<and>
   separateInstrumental two_second_stereo =
     Inr \<lparr> sampleRate = 2, channelCount = 2,
           channels = [[0, 1/4, -1/4, 1/4], [0, -1/4, 1/4, -1/4]] \<rparr> \<and>
   (\<exists>b'. separateInstrumental two_second_stereo = Inr b' \<and>
         sampleRate b' = sampleRate two_second_stereo \<and>
         channelCount b' = channelCount two_second_stereo \<and>
         map length (channels b') = map length (channels two_second_stereo) \<and>
         valid_buffer b')"
proof -
  have v: "valid_buffer two_second_stereo"
    by (simp add: valid_buffer_def two_second_stereo_def)
  have e: "separateInstrumental two_second_stereo =
     Inr \<lparr> sampleRate = 2, channelCount = 2,
           channels = [[0, 1/4, -1/4, 1/4], [0, -1/4, 1/4, -1/4]] \<rparr>"
    by (simp add: separateInstrumental_def two_second_stereo_def)
  show ?thesis using separator_preserves_shape [OF v] v e by blast
qed

subsection \<open>A rejected construction stays cached\<close>

text \<open>
  Claim C10. When the slot of a getter is empty and the construction started by its first
  call rejects, the getter has stored that rejected promise in its slot, after one call of
  \<open>pipeline\<close>. From then on every call of the getter, within any sequence of getter calls,
  returns that promise; after any sequence of requests the slot still holds it, a call of
  the getter returns it and leaves the world as it is (no new construction), and every
  validated request of the sequence that needs this getter got the 500 response.
\<close>

theorem rejected_promise_stays_cached:
  assumes "slot g w = None"
  shows "let p = fst (call_getter g (Rejected e) w); w1 = snd (call_getter g (Rejected e) w) in
           settlement p = Rejected e \<and>
           slot g w1 = Some p \<and>
           constructions w1 = constructions w @ [model_of g] \<and>
           (\<forall>cs i. i < length cs \<and> fst (cs ! i) = g \<longrightarrow> fst (call_getters cs w1) ! i = p) \<and>
           (\<forall>rs. slot g (snd (run_requests rs w1)) = Some p \<and>
                 (\<forall>outcome. call_getter g outcome (snd (run_requests rs w1)) =
                              (p, snd (run_requests rs w1))) \<and>
                 (\<forall>i f l. i < length rs \<and> validated (snd (rs ! i)) f l \<and> needs g l \<longrightarrow>
                    fst (run_requests rs w1) ! i =
                      \<lparr> body = TextBody ''Failed to process audio'', status = 500, headers = [] \<rparr>))"
proof -
  define p where "p = fst (call_getter g (Rejected e) w)"
  define w1 where "w1 = snd (call_getter g (Rejected e) w)"
  have rej: "settlement p = Rejected e"
    using assms by (simp add: p_def call_getter_first)
  have stored: "slot g w1 = Some p"
    by (simp add: p_def w1_def slot_other)
  have built: "constructions w1 = constructions w @ [model_of g]"
    using assms by (simp add: w1_def call_getter_fresh)
  have calls: "fst (call_getters cs w1) ! i = p" if "i < length cs \<and> fst (cs ! i) = g" for cs i
  proof -
    have "slot (fst (cs ! i)) (snd (call_getters cs w1)) = Some (fst (call_getters cs w1) ! i)"
      using that by (intro returned_is_cached) simp
    moreover have "slot g (snd (call_getters cs w1)) = Some p"
      using stored by (rule slot_kept_all)
    ultimately show ?thesis using that by simp
  qed
  have requests: "slot g (snd (run_requests rs w1)) = Some p \<and>
                 (\<forall>outcome. call_getter g outcome (snd (run_requests rs w1)) =
                              (p, snd (run_requests rs w1))) \<and>
                 (\<forall>i f l. i < length rs \<and> validated (snd (rs ! i)) f l \<and> needs g l \<longrightarrow>
                    fst (run_requests rs w1) ! i =
                      \<lparr> body = TextBody ''Failed to process audio'', status = 500, headers = [] \<rparr>)"
    for rs
  proof (intro conjI allI impI)
    show s: "slot g (snd (run_requests rs w1)) = Some p"
      using stored by (rule run_requests_slot_kept)
    show "call_getter g outcome (snd (run_requests rs w1)) = (p, snd (run_requests rs w1))"
      for outcome
      using s by (rule call_getter_cached)
    show "fst (run_requests rs w1) ! i =
            \<lparr> body = TextBody ''Failed to process audio'', status = 500, headers = [] \<rparr>"
      if "i < length rs \<and> validated (snd (rs ! i)) f l \<and> needs g l" for i f l
      using stored rej that run_requests_rejected [of g w1 p e i rs f l]
      by (simp add: failed_response_def)
  qed
  show ?thesis
    unfolding Let_def p_def [symmetric] w1_def [symmetric]
    using rej stored built calls requests by blast
qed

theorem rejected_promise_stays_cached_witness:
  "slot GetASR initial = None \<and> slot GetTranslator initial = None \<and>
   slot (GetTTS ''es'') initial = None \<and>
   validated request_default talk ''es'' \<and>
   fst (run_requests [(env_ok, request_default)]
          (snd (call_getter GetASR (Rejected broken) initial))) ! 0 =
     \<lparr> body = TextBody ''Failed to process audio'', status = 500, headers = [] \<rparr> \<and>
   fst (run_requests [(env_ok, request_default)]
          (snd (call_getter GetTranslator (Rejected broken) initial))) ! 0 =
     \<lparr> body = TextBody ''Failed to process audio'', status = 500, headers = [] \<rparr> \<and>
   fst (run_requests [(env_ok, request_default)]
          (snd (call_getter (GetTTS ''es'') (Rejected broken) initial))) ! 0 =
     \<lparr> body = TextBody ''Failed to process audio'', status = 500, headers = [] \<rparr> \<and>
   slot GetTranslator (snd (call_getter GetTranslator (Rejected broken) initial)) =
     Some (Promise 0 (Rejected broken)) \<and>
   slot GetASR (snd (POST env_asr_broken request_default initial)) =
     Some (fst (call_getter GetASR (Rejected (Error ''model download failed'')) initial))"
proof -
  let ?rs = "[(env_ok, request_default)]"
  have a: "slot GetASR initial = None" by (simp add: initial_def)
  have t: "slot GetTranslator initial = None" by (simp add: initial_def)
  have s: "slot (GetTTS ''es'') initial = None" by (simp add: initial_def)
  have v: "validated request_default talk ''es''" by code_simp
  have i: "0 < length ?rs \<and> validated (snd (?rs ! 0)) talk ''es'' \<and> needs GetASR ''es''"
      "0 < length ?rs \<and> validated (snd (?rs ! 0)) talk ''es'' \<and> needs GetTranslator ''es''"
      "0 < length ?rs \<and> validated (snd (?rs ! 0)) talk ''es'' \<and> needs (GetTTS ''es'') ''es''"
    using v by simp_all
  have "fst (run_requests ?rs (snd (call_getter GetASR (Rejected broken) initial))) ! 0 =
     \<lparr> body = TextBody ''Failed to process audio'', status = 500, headers = [] \<rparr>"
    using rejected_promise_stays_cached [OF a, of broken] i(1) unfolding Let_def by blast
  moreover have "fst (run_requests ?rs (snd (call_getter GetTranslator (Rejected broken) initial))) ! 0 =
     \<lparr> body = TextBody ''Failed to process audio'', status = 500, headers = [] \<rparr>"
    using rejected_promise_stays_cached [OF t, of broken] i(2) unfolding Let_def by blast
  moreover have "fst (run_requests ?rs (snd (call_getter (GetTTS ''es'') (Rejected broken) initial))) ! 0 =
     \<lparr> body = TextBody ''Failed to process audio'', status = 500, headers = [] \<rparr>"
    using rejected_promise_stays_cached [OF s, of broken] i(3) unfolding Let_def by blast
  moreover have "slot GetTranslator (snd (call_getter GetTranslator (Rejected broken) initial)) =
     Some (Promise 0 (Rejected broken))"
  proof -
    have "slot GetTranslator (snd (call_getter GetTranslator (Rejected broken) initial)) =
          Some (fst (call_getter GetTranslator (Rejected broken) initial))"
      using rejected_promise_stays_cached [OF t, of broken] unfolding Let_def by blast
    moreover have "fst (call_getter GetTranslator (Rejected broken) initial) =
          Promise 0 (Rejected broken)"
      using call_getter_first [OF t, of "Rejected broken"] by (simp add: initial_def)
    ultimately show ?thesis by (simp only:)
  qed
  moreover have "slot GetASR (snd (POST env_asr_broken request_default initial)) =
     Some (fst (call_getter GetASR (Rejected (Error ''model download failed'')) initial))"
    by code_simp
  ultimately show ?thesis using a t s v by blast
qed

end
